theory Spec2Isabelle
  imports Main "HOL-Library.Word" "HOL-Library.Sublist" "HOL-Library.Char_ord"
    "HOL-Library.List_Lexorder"
begin

unbundle bit_operations_syntax

section \<open>Machine integers\<close>

text \<open>
  The embedding fixes the LP64 data model: \<open>size_t\<close> and \<open>unsigned long\<close> are
  64-bit words, \<open>int\<close> is a 32-bit two's complement word.
\<close>

type_synonym size_t = "64 word"
type_synonym ulong = "64 word"
type_synonym cint = "32 word"

section \<open>Expressions (ast.hpp, class Expression)\<close>

datatype Concrete_Type =
  NONE | BOOLEAN | NUMBER | COLOR | STRING | LIST | MAP | SELECTOR | NULL_VAL
  | C_WARNING | C_ERROR | NUM_TYPES

record 'p Expression =
  pstate :: 'p
  is_delayed :: bool
  is_expanded :: bool
  is_interpolant :: bool
  concrete_type :: Concrete_Type

text \<open>
  The constructor \<open>Expression(pstate, d, e, i, ct)\<close> with its member initialisers
  \<^verbatim>\<open>is_delayed_(d), is_expanded_(d), is_interpolant_(i), concrete_type_(ct)\<close>.
\<close>

definition new_Expression ::
  "'p \<Rightarrow> bool \<Rightarrow> bool \<Rightarrow> bool \<Rightarrow> Concrete_Type \<Rightarrow> 'p Expression" where
  "new_Expression ps d e i ct =
     \<lparr> pstate = ps, is_delayed = d, is_expanded = d, is_interpolant = i,
       concrete_type = ct \<rparr>"

section \<open>Vectorized containers (ast.hpp, template class Vectorized)\<close>

text \<open>
  The element type \<open>T\<close> is a pointer type in every instance; an element is an
  \<open>'a option\<close> with \<open>None\<close> for the null pointer. The virtual hook
  \<open>adjust_after_pushing\<close> is a parameter, so that one definition of
  \<open>operator<<\<close> serves every derived class.
\<close>

record 'a Vectorized =
  elements :: "'a list"
  hash :: size_t

definition reset_hash :: "('a, 'z) Vectorized_scheme \<Rightarrow> ('a, 'z) Vectorized_scheme" where
  "reset_hash v = v\<lparr>hash := 0\<rparr>"

definition Vectorized_push ::
  "('a \<Rightarrow> ('a, 'z) Vectorized_scheme \<Rightarrow> ('a, 'z) Vectorized_scheme) \<Rightarrow>
   ('a, 'z) Vectorized_scheme \<Rightarrow> 'a option \<Rightarrow> ('a, 'z) Vectorized_scheme" where
  "Vectorized_push adjust_after_pushing v element =
     (case element of
        None \<Rightarrow> v
      | Some e \<Rightarrow>
          adjust_after_pushing e ((reset_hash v)\<lparr>elements := elements (reset_hash v) @ [e]\<rparr>))"

text \<open>The hook of the base class does nothing.\<close>

definition Vectorized_adjust_after_pushing ::
  "'a \<Rightarrow> ('a, 'z) Vectorized_scheme \<Rightarrow> ('a, 'z) Vectorized_scheme" where
  "Vectorized_adjust_after_pushing element v = v"

subsection \<open>Statements and blocks\<close>

text \<open>
  The statement classes of ast.hpp, as far as \<open>Block::adjust_after_pushing\<close> looks
  at them: the dynamic class of the statement, which decides the virtual
  \<open>is_hoistable()\<close>.
\<close>

datatype Statement =
  A_Block | A_Ruleset | A_Propset | A_Bubble | A_Media_Block | A_Supports_Block
  | A_At_Rule | A_Keyframe_Rule | A_Declaration | A_Assignment | A_Import
  | A_Import_Stub | A_Warning | A_Error | A_Debug | A_Comment | A_If | A_For
  | A_Each | A_While | A_Return | A_Extension | A_Definition | A_Mixin_Call
  | A_Content | A_At_Root_Block

fun is_hoistable :: "Statement \<Rightarrow> bool" where
  "is_hoistable A_Ruleset = True"
| "is_hoistable A_Media_Block = True"
| "is_hoistable A_Supports_Block = True"
| "is_hoistable A_At_Root_Block = True"
| "is_hoistable _ = False"

record Block = "Statement Vectorized" +
  is_root :: bool
  is_at_root :: bool
  has_hoistable :: bool
  has_non_hoistable :: bool

definition Block_adjust_after_pushing :: "Statement \<Rightarrow> Block \<Rightarrow> Block" where
  "Block_adjust_after_pushing s b =
     (if is_hoistable s then b\<lparr>has_hoistable := True\<rparr>
      else b\<lparr>has_non_hoistable := True\<rparr>)"

definition Block_push :: "Block \<Rightarrow> Statement option \<Rightarrow> Block" where
  "Block_push = Vectorized_push Block_adjust_after_pushing"

subsection \<open>Value lists\<close>

record 'e Sass_List = "'e Vectorized" +
  List_is_expanded :: bool

definition List_adjust_after_pushing :: "'e \<Rightarrow> 'e Sass_List \<Rightarrow> 'e Sass_List" where
  "List_adjust_after_pushing e l = l\<lparr>List_is_expanded := False\<rparr>"

definition List_push :: "'e Sass_List \<Rightarrow> 'e option \<Rightarrow> 'e Sass_List" where
  "List_push = Vectorized_push List_adjust_after_pushing"

section \<open>Hashed containers (ast.hpp, class Hashed)\<close>

text \<open>
  Keys and values are \<open>Expression*\<close>. A key is dereferenced for its hash on every
  access, so keys are non-null objects \<open>'e\<close>; the virtual \<open>Expression::hash()\<close> is
  the parameter \<open>hash_of\<close>. The specialisations \<open>std::hash<Sass::Expression*>\<close> and
  \<open>std::equal_to<Sass::Expression*>\<close> of ast.hpp:
\<close>

definition std_hash :: "('e \<Rightarrow> size_t) \<Rightarrow> 'e \<Rightarrow> size_t" where
  "std_hash hash_of s = hash_of s"

definition equal_to :: "('e \<Rightarrow> size_t) \<Rightarrow> 'e \<Rightarrow> 'e \<Rightarrow> bool" where
  "equal_to hash_of lhs rhs \<longleftrightarrow> hash_of lhs = hash_of rhs"

text \<open>
  \<open>std::unordered_map<Expression*, Expression*>\<close> with these two functors: a table of
  entries with unique keys, where a stored key matches a probe when both land in the
  same bucket (equal \<open>std_hash\<close>) and \<open>equal_to\<close> holds. The table is the list of
  its entries; \<open>count\<close> is 0 or 1 as for every unique-key container, and
  \<open>operator[]\<close> followed by assignment overwrites the value of the matching entry or
  adds a new one.
\<close>

type_synonym 'e unordered_map = "('e \<times> 'e) list"

definition matches :: "('e \<Rightarrow> size_t) \<Rightarrow> 'e \<Rightarrow> 'e \<times> 'e \<Rightarrow> bool" where
  "matches hash_of k entry \<longleftrightarrow>
     std_hash hash_of (fst entry) = std_hash hash_of k \<and> equal_to hash_of (fst entry) k"

definition um_find :: "('e \<Rightarrow> size_t) \<Rightarrow> 'e unordered_map \<Rightarrow> 'e \<Rightarrow> ('e \<times> 'e) option" where
  "um_find hash_of m k = find (matches hash_of k) m"

definition um_count :: "('e \<Rightarrow> size_t) \<Rightarrow> 'e unordered_map \<Rightarrow> 'e \<Rightarrow> nat" where
  "um_count hash_of m k = (case um_find hash_of m k of None \<Rightarrow> 0 | Some _ \<Rightarrow> 1)"

fun um_assign :: "('e \<Rightarrow> size_t) \<Rightarrow> 'e unordered_map \<Rightarrow> 'e \<Rightarrow> 'e \<Rightarrow> 'e unordered_map" where
  "um_assign hash_of [] k v = [(k, v)]"
| "um_assign hash_of (entry # m) k v =
     (if matches hash_of k entry then (fst entry, v) # m
      else entry # um_assign hash_of m k v)"

record 'e Hashed =
  H_elements :: "'e unordered_map"
  H_list :: "'e list"
  H_hash :: size_t
  duplicate_key :: "'e option"

definition Hashed_reset_hash :: "('e, 'z) Hashed_scheme \<Rightarrow> ('e, 'z) Hashed_scheme" where
  "Hashed_reset_hash m = m\<lparr>H_hash := 0\<rparr>"

definition reset_duplicate_key :: "('e, 'z) Hashed_scheme \<Rightarrow> ('e, 'z) Hashed_scheme" where
  "reset_duplicate_key m = m\<lparr>duplicate_key := None\<rparr>"

definition has :: "('e \<Rightarrow> size_t) \<Rightarrow> ('e, 'z) Hashed_scheme \<Rightarrow> 'e \<Rightarrow> bool" where
  "has hash_of m k \<longleftrightarrow> um_count hash_of (H_elements m) k = 1"

definition has_duplicate_key :: "('e, 'z) Hashed_scheme \<Rightarrow> bool" where
  "has_duplicate_key m \<longleftrightarrow> duplicate_key m \<noteq> None"

definition get_duplicate_key :: "('e, 'z) Hashed_scheme \<Rightarrow> 'e option" where
  "get_duplicate_key m = duplicate_key m"

definition keys :: "('e, 'z) Hashed_scheme \<Rightarrow> 'e list" where
  "keys m = H_list m"

text \<open>
  \<open>Hashed::operator<<\<close>: reset the hash; push the key on the ordered key list unless
  the table has it, else remember it as the duplicate key unless one is remembered;
  assign the value; call the hook.
\<close>

definition Hashed_push ::
  "('e \<Rightarrow> size_t) \<Rightarrow> ('e \<times> 'e \<Rightarrow> ('e, 'z) Hashed_scheme \<Rightarrow> ('e, 'z) Hashed_scheme) \<Rightarrow>
   ('e, 'z) Hashed_scheme \<Rightarrow> 'e \<times> 'e \<Rightarrow> ('e, 'z) Hashed_scheme" where
  "Hashed_push hash_of adjust_after_pushing m p =
     (let m1 = Hashed_reset_hash m;
          m2 = (if \<not> has hash_of m1 (fst p) then m1\<lparr>H_list := H_list m1 @ [fst p]\<rparr>
                else if duplicate_key m1 = None then m1\<lparr>duplicate_key := Some (fst p)\<rparr>
                else m1);
          m3 = m2\<lparr>H_elements := um_assign hash_of (H_elements m2) (fst p) (snd p)\<rparr>
      in adjust_after_pushing p m3)"

text \<open>
  Modelled from the spec: \<open>Hashed::at\<close> is declared in ast.hpp and its body is not
  under src. The spec describes a map as "entries: ordered key \<rightarrow> value"; \<open>at\<close> is
  the value the table holds for the key, \<open>None\<close> where the table has no such key.
\<close>

definition at :: "('e \<Rightarrow> size_t) \<Rightarrow> ('e, 'z) Hashed_scheme \<Rightarrow> 'e \<Rightarrow> 'e option" where
  "at hash_of m k = map_option snd (um_find hash_of (H_elements m) k)"

subsection \<open>Maps\<close>

record 'e Sass_Map = "'e Hashed" +
  Map_is_expanded :: bool

definition Map_adjust_after_pushing :: "'e \<times> 'e \<Rightarrow> 'e Sass_Map \<Rightarrow> 'e Sass_Map" where
  "Map_adjust_after_pushing p m = m\<lparr>Map_is_expanded := False\<rparr>"

definition Map_push :: "('e \<Rightarrow> size_t) \<Rightarrow> 'e Sass_Map \<Rightarrow> 'e \<times> 'e \<Rightarrow> 'e Sass_Map" where
  "Map_push hash_of = Hashed_push hash_of Map_adjust_after_pushing"

text \<open>The hash of the base class: \<open>virtual size_t hash() { return 0; }\<close>.\<close>

definition Expression_hash :: "'e \<Rightarrow> size_t" where
  "Expression_hash e = 0"

text \<open>
  The constructor \<open>Map(pstate, size)\<close>: an empty table and key list, no duplicate key,
  \<open>is_expanded\<close> false from \<open>Expression(pstate)\<close>. It leaves \<open>hash_\<close> uninitialised:
  the initial value is the parameter \<open>h0\<close>.
\<close>

definition new_Map :: "size_t \<Rightarrow> 'e Sass_Map" where
  "new_Map h0 =
     \<lparr>H_elements = [], H_list = [], H_hash = h0, duplicate_key = None,
      Map_is_expanded = False\<rparr>"


section \<open>Selectors (ast.hpp)\<close>

text \<open>
  The weights \<open>Constants::Specificity_*\<close> are declared in constants.hpp, which is not
  under src: every function that reads them takes the record \<open>K\<close> of their values.
\<close>

record Constants =
  Specificity_Universal :: ulong
  Specificity_Type :: ulong
  Specificity_Class :: ulong
  Specificity_Attr :: ulong
  Specificity_Pseudo :: ulong
  Specificity_ID :: ulong

text \<open>
  The flags of class \<open>Selector\<close> that the functions below read, and the fields of
  \<open>Simple_Selector\<close>. Each class of the hierarchy is a constructor or a type of its
  own, so that a \<open>Compound_Selector\<close> holds simple selectors only, a
  \<open>Complex_Selector\<close> a head compound and a tail complex (each possibly null), and a
  \<open>Selector_List\<close> complex selectors. \<open>Selector\<close> is the type of a \<open>Selector*\<close>
  that may point to an object of any of the classes.
\<close>

record Selector_props =
  has_reference :: bool
  has_placeholder :: bool
  has_line_feed :: bool

record Simple_props = Selector_props +
  ns :: string
  name :: string
  has_ns :: bool

datatype Combinator = ANCESTOR_OF | PARENT_OF | PRECEDES | ADJACENT_TO | REFERENCE

datatype Simple_Selector =
    Parent_Selector (Simple_props_of: Simple_props)
  | Selector_Placeholder (Simple_props_of: Simple_props)
  | Type_Selector (Simple_props_of: Simple_props)
  | Selector_Qualifier (Simple_props_of: Simple_props)
  | Attribute_Selector (Simple_props_of: Simple_props) (matcher: string) (Attribute_value: "string option")
  | Pseudo_Selector (Simple_props_of: Simple_props) (expression: "string option")
  | Wrapped_Selector (Simple_props_of: Simple_props) (Wrapped_selector: "Selector option")
and Compound_Selector =
    Compound_Selector (Compound_props: Selector_props) (Compound_elements: "Simple_Selector list")
      (Compound_hash: size_t) (Compound_sources: "Complex_Selector list")
      (has_parent_reference: bool)
and Complex_Selector =
    Complex_Selector (Complex_props: Selector_props) (combinator: Combinator)
      (head: "Compound_Selector option") (tail: "Complex_Selector option")
and Selector_List =
    Selector_List (List_props: Selector_props) (List_elements: "Complex_Selector list")
      (List_hash: size_t)
and Selector =
    A_Simple Simple_Selector
  | A_Compound Compound_Selector
  | A_Complex Complex_Selector
  | A_List Selector_List
  | A_Schema Selector_props

subsection \<open>Specificity\<close>

text \<open>
  \<open>Compound_Selector::specificity\<close> and \<open>Complex_Selector::specificity\<close> accumulate
  in \<open>int sum\<close> and return \<open>unsigned long\<close>. \<open>sum += x\<close> with \<open>x\<close> unsigned long
  converts \<open>sum\<close> to unsigned long (sign extension), adds modulo \<open>2 ^ 64\<close> and
  converts back to int (truncation); \<open>return sum\<close> sign-extends again.
\<close>

definition int_plus_ulong :: "cint \<Rightarrow> ulong \<Rightarrow> cint" where
  "int_plus_ulong acc x = ucast ((scast acc :: ulong) + x)"

definition int_to_ulong :: "cint \<Rightarrow> ulong" where
  "int_to_ulong acc = scast acc"

text \<open>
  \<open>name_[i]\<close> on a \<open>std::string\<close>: the character, or the terminating null at
  \<open>i = size()\<close>.
\<close>

definition char_at :: "string \<Rightarrow> nat \<Rightarrow> char" where
  "char_at s i = (if i < length s then s ! i else CHR 0x00)"

definition is_pseudo_class_element :: "string \<Rightarrow> bool" where
  "is_pseudo_class_element n \<longleftrightarrow>
     n = '':before'' \<or> n = '':after'' \<or> n = '':first-line'' \<or> n = '':first-letter''"

definition is_pseudo_element :: "string \<Rightarrow> bool" where
  "is_pseudo_element n \<longleftrightarrow>
     (char_at n 0 = CHR '':'' \<and> char_at n 1 = CHR '':'') \<or> is_pseudo_class_element n"

text \<open>
  The virtual \<open>specificity()\<close>. \<open>Selector_Placeholder\<close> and \<open>Selector_Schema\<close> do
  not override it and inherit \<open>Selector::specificity\<close>. The function of
  \<open>Complex_Selector\<close> is declared \<open>const\<close>, unlike the one of \<open>Selector\<close>: it is
  reached through a \<open>Complex_Selector*\<close> (as in \<open>Selector_List::specificity\<close> and in
  its own recursion on the tail) and does not override the virtual function, so a call
  through a \<open>Selector*\<close> (as in \<open>Wrapped_Selector::specificity\<close>) that points to a
  complex selector runs \<open>Selector::specificity\<close>.
\<close>

fun Simple_specificity :: "Constants \<Rightarrow> Simple_Selector \<Rightarrow> ulong"
and Compound_specificity :: "Constants \<Rightarrow> Compound_Selector \<Rightarrow> ulong"
and Complex_specificity :: "Constants \<Rightarrow> Complex_Selector \<Rightarrow> ulong"
and List_specificity :: "Constants \<Rightarrow> Selector_List \<Rightarrow> ulong"
and Selector_specificity :: "Constants \<Rightarrow> Selector \<Rightarrow> ulong" where
  "Simple_specificity K (Parent_Selector p) = 0"
| "Simple_specificity K (Selector_Placeholder p) = Specificity_Universal K"
| "Simple_specificity K (Type_Selector p) =
     (if name p = ''*'' then Specificity_Universal K else Specificity_Type K)"
| "Simple_specificity K (Selector_Qualifier p) =
     (if char_at (name p) 0 = CHR ''#'' then Specificity_ID K
      else if char_at (name p) 0 = CHR ''.'' then Specificity_Class K
      else Specificity_Type K)"
| "Simple_specificity K (Attribute_Selector p m v) = Specificity_Attr K"
| "Simple_specificity K (Pseudo_Selector p e) =
     (if is_pseudo_element (name p) then Specificity_Type K else Specificity_Pseudo K)"
| "Simple_specificity K (Wrapped_Selector p sel) =
     (case sel of None \<Rightarrow> 0 | Some s \<Rightarrow> Selector_specificity K s)"
| "Compound_specificity K (Compound_Selector p es h srcs hp) =
     int_to_ulong (fold (\<lambda>s acc. int_plus_ulong acc (Simple_specificity K s)) es 0)"
| "Complex_specificity K (Complex_Selector p c h t) =
     (let acc = 0;
          acc = (case h of None \<Rightarrow> acc
                 | Some h' \<Rightarrow> int_plus_ulong acc (Compound_specificity K h'));
          acc = (case t of None \<Rightarrow> acc
                 | Some t' \<Rightarrow> int_plus_ulong acc (Complex_specificity K t'))
      in int_to_ulong acc)"
| "List_specificity K (Selector_List p cs h) =
     fold (\<lambda>c acc. let specificity = Complex_specificity K c
                     in if acc < specificity then specificity else acc) cs 0"
| "Selector_specificity K (A_Simple s) = Simple_specificity K s"
| "Selector_specificity K (A_Compound c) = Compound_specificity K c"
| "Selector_specificity K (A_Complex c) = Specificity_Universal K"
| "Selector_specificity K (A_List l) = List_specificity K l"
| "Selector_specificity K (A_Schema p) = Specificity_Universal K"


text \<open>
  Modelled from the spec: the values of the weights, for evaluation at concrete inputs.
  constants.hpp is not under src; the spec's table names the levels id, class,
  attribute, pseudo-class and type and gives the universal selector 0. The levels are
  one byte apart.
\<close>

definition Constants_levels :: Constants where
  "Constants_levels =
     \<lparr>Specificity_Universal = 0, Specificity_Type = push_bit 8 1,
      Specificity_Class = push_bit 16 1, Specificity_Attr = push_bit 16 1,
      Specificity_Pseudo = push_bit 16 1, Specificity_ID = push_bit 24 1\<rparr>"

subsection \<open>Constructors and operator<<\<close>

text \<open>\<open>Selector(pstate, r, h)\<close>, with \<open>r\<close> and \<open>h\<close> false by default.\<close>

definition new_Selector :: "bool \<Rightarrow> bool \<Rightarrow> Selector_props" where
  "new_Selector r h = \<lparr>has_reference = r, has_placeholder = h, has_line_feed = False\<rparr>"

text \<open>
  \<open>Simple_Selector(pstate, n)\<close>: a name with a \<open>|\<close> is split at the first one into
  namespace and name.
\<close>

definition new_Simple_Selector :: "string \<Rightarrow> Simple_props" where
  "new_Simple_Selector n =
     (if CHR ''|'' \<in> set n
      then \<lparr>has_reference = False, has_placeholder = False, has_line_feed = False,
            ns = takeWhile (\<lambda>c. c \<noteq> CHR ''|'') n,
            name = tl (dropWhile (\<lambda>c. c \<noteq> CHR ''|'') n), has_ns = True\<rparr>
      else \<lparr>has_reference = False, has_placeholder = False, has_line_feed = False,
            ns = [], name = n, has_ns = False\<rparr>)"

definition new_Parent_Selector :: Simple_Selector where
  "new_Parent_Selector = Parent_Selector ((new_Simple_Selector ''&'')\<lparr>has_reference := True\<rparr>)"

definition new_Selector_Placeholder :: "string \<Rightarrow> Simple_Selector" where
  "new_Selector_Placeholder n =
     Selector_Placeholder ((new_Simple_Selector n)\<lparr>has_placeholder := True\<rparr>)"

definition new_Type_Selector :: "string \<Rightarrow> Simple_Selector" where
  "new_Type_Selector n = Type_Selector (new_Simple_Selector n)"

definition new_Selector_Qualifier :: "string \<Rightarrow> Simple_Selector" where
  "new_Selector_Qualifier n = Selector_Qualifier (new_Simple_Selector n)"

definition new_Pseudo_Selector :: "string \<Rightarrow> string option \<Rightarrow> Simple_Selector" where
  "new_Pseudo_Selector n expr = Pseudo_Selector (new_Simple_Selector n) expr"

text \<open>
  \<open>Compound_Selector(pstate, s)\<close>: no elements, no sources, flags false. The constructor
  of \<open>Vectorized\<close> leaves \<open>hash_\<close> uninitialised: its value is the parameter \<open>h0\<close>.
\<close>

definition new_Compound_Selector :: "size_t \<Rightarrow> Compound_Selector" where
  "new_Compound_Selector h0 = Compound_Selector (new_Selector False False) [] h0 [] False"

text \<open>
  \<open>Vectorized<Simple_Selector*>::operator<<\<close> on a compound selector, with
  \<open>Compound_Selector::adjust_after_pushing\<close>.
\<close>

definition Compound_adjust_after_pushing ::
  "Simple_Selector \<Rightarrow> Compound_Selector \<Rightarrow> Compound_Selector" where
  "Compound_adjust_after_pushing s c =
     (case c of Compound_Selector p es h srcs hp \<Rightarrow>
        let p = (if has_reference (Simple_props_of s) then p\<lparr>has_reference := True\<rparr> else p);
            p = (if has_placeholder (Simple_props_of s) then p\<lparr>has_placeholder := True\<rparr> else p)
        in Compound_Selector p es h srcs hp)"

definition Compound_push :: "Compound_Selector \<Rightarrow> Simple_Selector option \<Rightarrow> Compound_Selector" where
  "Compound_push c element =
     (case element of
        None \<Rightarrow> c
      | Some e \<Rightarrow>
          (case c of Compound_Selector p es h srcs hp \<Rightarrow>
             Compound_adjust_after_pushing e (Compound_Selector p (es @ [e]) 0 srcs hp)))"

text \<open>\<open>Complex_Selector(pstate, c, h, t)\<close>: the flags come from head and tail.\<close>

definition new_Complex_Selector ::
  "Combinator \<Rightarrow> Compound_Selector option \<Rightarrow> Complex_Selector option \<Rightarrow> Complex_Selector" where
  "new_Complex_Selector c h t =
     (let p = new_Selector False False;
          p = (if (case h of None \<Rightarrow> False | Some h' \<Rightarrow> has_reference (Compound_props h')) \<or>
                  (case t of None \<Rightarrow> False | Some t' \<Rightarrow> has_reference (Complex_props t'))
               then p\<lparr>has_reference := True\<rparr> else p);
          p = (if (case h of None \<Rightarrow> False | Some h' \<Rightarrow> has_placeholder (Compound_props h')) \<or>
                  (case t of None \<Rightarrow> False | Some t' \<Rightarrow> has_placeholder (Complex_props t'))
               then p\<lparr>has_placeholder := True\<rparr> else p)
      in Complex_Selector p c h t)"

text \<open>
  \<open>Vectorized<Complex_Selector*>::operator<<\<close> on a selector list. The body of
  \<open>Selector_List::adjust_after_pushing\<close> is not under src: the hook is a parameter.
\<close>

definition Selector_List_push ::
  "(Complex_Selector \<Rightarrow> Selector_List \<Rightarrow> Selector_List) \<Rightarrow>
   Selector_List \<Rightarrow> Complex_Selector option \<Rightarrow> Selector_List" where
  "Selector_List_push adjust_after_pushing l element =
     (case element of
        None \<Rightarrow> l
      | Some e \<Rightarrow>
          (case l of Selector_List p cs h \<Rightarrow>
             adjust_after_pushing e (Selector_List p (cs @ [e]) 0)))"

subsection \<open>Placeholders and invisible rulesets\<close>

text \<open>\<open>Compound_Selector::contains_placeholder\<close> and \<open>Complex_Selector::contains_placeholder\<close>.\<close>

fun Compound_contains_placeholder :: "Compound_Selector \<Rightarrow> bool" where
  "Compound_contains_placeholder (Compound_Selector p es h srcs hp) =
     list_ex (\<lambda>s. has_placeholder (Simple_props_of s)) es"

fun Complex_contains_placeholder :: "Complex_Selector \<Rightarrow> bool" where
  "Complex_contains_placeholder (Complex_Selector p c h t) =
     (if (case h of None \<Rightarrow> False | Some h' \<Rightarrow> Compound_contains_placeholder h') then True
      else if (case t of None \<Rightarrow> False | Some t' \<Rightarrow> Complex_contains_placeholder t') then True
      else False)"

record Ruleset =
  Ruleset_block :: "Block option"
  selector :: "Selector option"
  at_root :: bool

text \<open>
  \<open>Ruleset::is_invisible\<close>. The \<open>static_cast<Selector_List*>\<close> is only defined for a
  selector that is a selector list: for any other selector, and for the null pointer,
  the result is \<open>None\<close>. The loop stops at the first alternative that clears the flag.
\<close>

fun is_invisible_loop :: "Complex_Selector list \<Rightarrow> bool \<Rightarrow> bool" where
  "is_invisible_loop [] is_invisible = is_invisible"
| "is_invisible_loop (c # cs) is_invisible =
     (if is_invisible
      then is_invisible_loop cs (is_invisible \<and> has_placeholder (Complex_props c))
      else is_invisible)"

definition Ruleset_is_invisible :: "Ruleset \<Rightarrow> bool option" where
  "Ruleset_is_invisible r =
     (case selector r of
        Some (A_List sl) \<Rightarrow> Some (is_invisible_loop (List_elements sl) True)
      | _ \<Rightarrow> None)"

text \<open>
  The spec's placeholder-only selector, "a selector made entirely of placeholder
  simples": every simple selector of every compound of the chain is a
  \<open>Selector_Placeholder\<close>.
\<close>

fun is_Selector_Placeholder :: "Simple_Selector \<Rightarrow> bool" where
  "is_Selector_Placeholder (Selector_Placeholder p) = True"
| "is_Selector_Placeholder _ = False"

fun placeholder_only :: "Complex_Selector \<Rightarrow> bool" where
  "placeholder_only (Complex_Selector p c h t) =
     ((case h of None \<Rightarrow> True
       | Some h' \<Rightarrow> list_all is_Selector_Placeholder (Compound_elements h')) \<and>
      (case t of None \<Rightarrow> True | Some t' \<Rightarrow> placeholder_only t'))"


section \<open>Source maps (source_map.cpp)\<close>

text \<open>
  position.hpp is not under src. source_map.cpp reads \<open>line\<close> and \<open>column\<close> of an
  \<open>Offset\<close>, reads \<open>file\<close>, \<open>line\<close> and \<open>column\<close> of a \<open>Position\<close>, and builds an
  \<open>Offset\<close> from a \<open>Position\<close>: a position is an offset with a file. All three are
  \<open>size_t\<close>. A \<open>Mapping\<close> has an original and a generated position.
\<close>

record Offset =
  line :: size_t
  column :: size_t

record Position = Offset +
  "file" :: size_t

record Mapping =
  original_position :: Position
  generated_position :: Position

record SourceMap =
  source_index :: "size_t list"
  mappings :: "Mapping list"
  current_position :: Position
  SourceMap_file :: string

record OutputBuffer =
  buffer :: string
  smap :: SourceMap

datatype runtime_error = runtime_error string

text \<open>\<open>Offset size(out.smap.current_position)\<close>: the offset part of a position.\<close>

definition Offset_of_Position :: "Position \<Rightarrow> Offset" where
  "Offset_of_Position p = \<lparr>line = line p, column = column p\<rparr>"

text \<open>
  \<open>SourceMap::prepend(const Offset&)\<close>: the loop over the mappings runs unless the offset
  is zero; the current position moves in both cases.
\<close>

definition prepend_mapping :: "Offset \<Rightarrow> Mapping \<Rightarrow> Mapping" where
  "prepend_mapping offset mapping =
     (let gp = generated_position mapping;
          gp = (if line gp = 0 then gp\<lparr>column := column gp + column offset\<rparr> else gp);
          gp = gp\<lparr>line := line gp + line offset\<rparr>
      in mapping\<lparr>generated_position := gp\<rparr>)"

definition prepend_Offset :: "Offset \<Rightarrow> SourceMap \<Rightarrow> SourceMap" where
  "prepend_Offset offset m =
     (let m = (if line offset \<noteq> 0 \<or> column offset \<noteq> 0
               then m\<lparr>mappings := map (prepend_mapping offset) (mappings m)\<rparr> else m);
          cp = current_position m;
          cp = (if line cp = 0 then cp\<lparr>column := column cp + column offset\<rparr> else cp);
          cp = cp\<lparr>line := line cp + line offset\<rparr>
      in m\<lparr>current_position := cp\<rparr>)"

text \<open>
  Modelled from the spec: the macro \<open>VECTOR_UNSHIFT\<close> is defined in a header that is not
  under src; the spec has \<open>prepend\<close> "unshift the buffer's own mappings", that is,
  insert them at the front of the vector, in their order.
\<close>

definition VECTOR_UNSHIFT :: "'a list \<Rightarrow> 'a list \<Rightarrow> 'a list" where
  "VECTOR_UNSHIFT vec ins = ins @ vec"

text \<open>
  \<open>SourceMap::prepend(const OutputBuffer&)\<close>. The first loop throws at the first mapping
  of the buffer that lies beyond \<open>size\<close> (here \<open>sz\<close>). The constructor \<open>Offset(const string&)\<close> is the
  parameter \<open>Offset_of_string\<close>. The result is the source map after the call, and the
  exception if one was thrown.
\<close>

fun prepend_check :: "Offset \<Rightarrow> Mapping list \<Rightarrow> runtime_error option" where
  "prepend_check sz [] = None"
| "prepend_check sz (mapping # ms) =
     (if line (generated_position mapping) > line sz
      then Some (runtime_error ''prepend sourcemap has illegal line'')
      else if line (generated_position mapping) = line sz \<and>
              column (generated_position mapping) > column sz
      then Some (runtime_error ''prepend sourcemap has illegal column'')
      else prepend_check sz ms)"

definition prepend ::
  "(string \<Rightarrow> Offset) \<Rightarrow> OutputBuffer \<Rightarrow> SourceMap \<Rightarrow> SourceMap \<times> runtime_error option" where
  "prepend Offset_of_string out m =
     (let sz = Offset_of_Position (current_position (smap out))
      in case prepend_check sz (mappings (smap out)) of
           Some e \<Rightarrow> (m, Some e)
         | None \<Rightarrow>
             (let m = prepend_Offset (Offset_of_string (buffer out)) m;
                  m = m\<lparr>mappings := VECTOR_UNSHIFT (mappings m) (mappings (smap out))\<rparr>
              in (m, None)))"


section \<open>Nodes (node.cpp)\<close>

text \<open>
  node.hpp is not under src. node.cpp shows the members of a \<open>Node\<close> and the four
  types; the accessors \<open>isSelector()\<close>, \<open>selector()\<close> and \<open>collection()\<close> read the type
  and the two pointers. A null pointer is \<open>None\<close>.
\<close>

datatype Node_TYPE = SELECTOR | COMBINATOR | COLLECTION | NIL

datatype Node =
  Node (got_line_feed: bool) (mType: Node_TYPE) (mCombinator: Combinator)
    (mpSelector: "Complex_Selector option") (mpCollection: "Node list option")

definition isSelector :: "Node \<Rightarrow> bool" where
  "isSelector n \<longleftrightarrow> mType n = Node_TYPE.SELECTOR"

definition createCombinator :: "Combinator \<Rightarrow> Node" where
  "createCombinator c = Node False COMBINATOR c None None"

text \<open>
  \<open>Node::createSelector\<close>: a clone of the selector without its tail and with the
  descendant combinator; the line feed flag is the selector's.
\<close>

definition createSelector :: "Complex_Selector \<Rightarrow> Node" where
  "createSelector pSelector =
     (case pSelector of Complex_Selector p c h t \<Rightarrow>
        Node (has_line_feed p) Node_TYPE.SELECTOR ANCESTOR_OF
          (Some (Complex_Selector p ANCESTOR_OF h None)) None)"

definition createCollection :: Node where
  "createCollection = Node False COLLECTION ANCESTOR_OF None (Some [])"

definition createCollection_of :: "Node list \<Rightarrow> Node" where
  "createCollection_of values = Node False COLLECTION ANCESTOR_OF None (Some values)"

definition createNil :: Node where
  "createNil = Node False NIL ANCESTOR_OF None None"

subsection \<open>naiveTrim\<close>

text \<open>
  \<open>SourcesSet\<close> is \<open>std::set<Complex_Selector*, Complex_Selector_Pointer_Compare>\<close>. The
  body of the comparison is not under src: it is the parameter \<open>lt\<close>. A set ordered
  by \<open>lt\<close> holds no two equivalent elements, where two elements are equivalent when
  neither is less than the other, and \<open>find\<close> looks for an equivalent element. (For
  this to be what the search in the ordered tree finds, \<open>lt\<close> has to be a strict weak
  order, as the standard requires of a comparison.) The set is the list of its elements.
\<close>

type_synonym SourcesSet = "Complex_Selector list"

definition equivalent ::
  "(Complex_Selector \<Rightarrow> Complex_Selector \<Rightarrow> bool) \<Rightarrow> Complex_Selector \<Rightarrow> Complex_Selector \<Rightarrow> bool"
  where
  "equivalent lt a b \<longleftrightarrow> \<not> lt a b \<and> \<not> lt b a"

definition set_find ::
  "(Complex_Selector \<Rightarrow> Complex_Selector \<Rightarrow> bool) \<Rightarrow> SourcesSet \<Rightarrow> Complex_Selector \<Rightarrow> bool"
  where
  "set_find lt sel_set s \<longleftrightarrow> list_ex (equivalent lt s) sel_set"

definition set_insert ::
  "(Complex_Selector \<Rightarrow> Complex_Selector \<Rightarrow> bool) \<Rightarrow> SourcesSet \<Rightarrow> Complex_Selector \<Rightarrow> SourcesSet"
  where
  "set_insert lt sel_set s = (if set_find lt sel_set s then sel_set else sel_set @ [s])"

text \<open>
  The first loop of \<open>Node::naiveTrim\<close>, over the nodes from the back to the front (the
  list argument is the collection reversed), with the set \<open>sel_set\<close> and the vector
  \<open>res\<close>. The comparison dereferences the selector of a node: a selector node with a
  null selector has no result.
\<close>

fun naiveTrim_loop ::
  "(Complex_Selector \<Rightarrow> Complex_Selector \<Rightarrow> bool) \<Rightarrow> Node list \<Rightarrow> SourcesSet \<Rightarrow> Node list \<Rightarrow>
   Node list option" where
  "naiveTrim_loop lt [] sel_set res = Some res"
| "naiveTrim_loop lt (seqs1 # rest) sel_set res =
     (if isSelector seqs1
      then (case mpSelector seqs1 of
              None \<Rightarrow> None
            | Some s \<Rightarrow>
                if \<not> set_find lt sel_set s
                then naiveTrim_loop lt rest (set_insert lt sel_set s) (res @ [seqs1])
                else naiveTrim_loop lt rest sel_set res)
      else naiveTrim_loop lt rest sel_set (res @ [seqs1]))"

text \<open>
  The second loop, \<open>for (size_t i = res.size() - 1; i != string::npos; --i)\<close>: from the
  last index down to 0, where the decrement wraps to \<open>npos\<close>; for an empty \<open>res\<close> the
  start value is \<open>npos\<close> already.
\<close>

fun naiveTrim_copy :: "Node list \<Rightarrow> nat \<Rightarrow> Node list \<Rightarrow> Node list" where
  "naiveTrim_copy res 0 result = result @ [res ! 0]"
| "naiveTrim_copy res (Suc i) result = naiveTrim_copy res i (result @ [res ! Suc i])"

definition naiveTrim ::
  "(Complex_Selector \<Rightarrow> Complex_Selector \<Rightarrow> bool) \<Rightarrow> Node \<Rightarrow> Node option" where
  "naiveTrim lt seqses =
     (case mpCollection seqses of
        None \<Rightarrow> None
      | Some nodes \<Rightarrow>
          (case naiveTrim_loop lt (rev nodes) [] [] of
             None \<Rightarrow> None
           | Some res \<Rightarrow>
               Some (createCollection_of
                 (if res = [] then [] else naiveTrim_copy res (length res - 1) []))))"

text \<open>
  The selectors of the selector nodes of \<open>res\<close>: what \<open>sel_set\<close> holds while the
  first loop runs.
\<close>

definition kept_selectors :: "Node list \<Rightarrow> Complex_Selector list" where
  "kept_selectors res = concat (map (\<lambda>n. if isSelector n then (case mpSelector n of None \<Rightarrow> [] | Some s \<Rightarrow> [s]) else []) res)"

text \<open>
  What the loops compute, as a function of the collection from the front: a selector
  node is dropped when a selector already kept behind it is equivalent to its own, and
  every other node is kept.
\<close>

fun naiveTrim_kept ::
  "(Complex_Selector \<Rightarrow> Complex_Selector \<Rightarrow> bool) \<Rightarrow> Node list \<Rightarrow> Node list" where
  "naiveTrim_kept lt [] = []"
| "naiveTrim_kept lt (n # rest) =
     (if isSelector n \<and>
         list_ex (\<lambda>k. isSelector k \<and>
           (case (mpSelector n, mpSelector k) of
              (Some s, Some s') \<Rightarrow> equivalent lt s s' | _ \<Rightarrow> False))
           (naiveTrim_kept lt rest)
      then naiveTrim_kept lt rest
      else n # naiveTrim_kept lt rest)"

text \<open>
  \<open>Complex_Selector::sources\<close>: the sources of the head and of the tail.
\<close>

fun Complex_sources :: "Complex_Selector \<Rightarrow> Complex_Selector list" where
  "Complex_sources (Complex_Selector p c h t) =
     (case h of None \<Rightarrow> [] | Some h' \<Rightarrow> Compound_sources h') @
     (case t of None \<Rightarrow> [] | Some t' \<Rightarrow> Complex_sources t')"

text \<open>
  The spec's naive-trim: "walking the alternatives back-to-front, skip any selector whose
  source set is already subsumed by a previously kept alternative". The source set of a
  selector node is the sources of its selector, and it is subsumed by the source set of
  a kept selector node when every source of the first is a source of the second.
\<close>

definition Node_sources :: "Node \<Rightarrow> Complex_Selector list" where
  "Node_sources n = (case mpSelector n of None \<Rightarrow> [] | Some s \<Rightarrow> Complex_sources s)"

fun naiveTrim_spec :: "Node list \<Rightarrow> Node list" where
  "naiveTrim_spec [] = []"
| "naiveTrim_spec (n # rest) =
     (if isSelector n \<and>
         list_ex (\<lambda>k. isSelector k \<and> list_all (\<lambda>s. s \<in> set (Node_sources k)) (Node_sources n))
           (naiveTrim_spec rest)
      then naiveTrim_spec rest
      else n # naiveTrim_spec rest)"

text \<open>
  Modelled from the spec: \<open>Complex_Selector::operator<\<close>, which
  \<open>Complex_Selector_Pointer_Compare\<close> stands for, is declared in ast.hpp and its body is
  not under src. The spec calls it "the same total order as sorting", and the comment
  on \<open>selectors_equal\<close> in ast.hpp has it "implemented using string comparision", equal
  for selectors of identical output. For evaluation at concrete inputs, \<open>less_text\<close>
  compares the text of two selectors: the names of the simple selectors
  (\<open>Simple_Selector::ns_name\<close>) and the signs of the combinators.
\<close>

definition ns_name :: "Simple_props \<Rightarrow> string" where
  "ns_name p = (if has_ns p then ns p @ ''|'' else []) @ name p"

fun Combinator_text :: "Combinator \<Rightarrow> string" where
  "Combinator_text ANCESTOR_OF = '' ''"
| "Combinator_text PARENT_OF = ''>''"
| "Combinator_text PRECEDES = ''~''"
| "Combinator_text ADJACENT_TO = ''+''"
| "Combinator_text REFERENCE = ''/''"

fun Complex_text :: "Complex_Selector \<Rightarrow> string" where
  "Complex_text (Complex_Selector p c h t) =
     (case h of None \<Rightarrow> []
      | Some h' \<Rightarrow> concat (map (\<lambda>s. ns_name (Simple_props_of s)) (Compound_elements h'))) @
     Combinator_text c @
     (case t of None \<Rightarrow> [] | Some t' \<Rightarrow> Complex_text t')"

definition less_text :: "Complex_Selector \<Rightarrow> Complex_Selector \<Rightarrow> bool" where
  "less_text a b \<longleftrightarrow> Complex_text a < Complex_text b"


section \<open>Base64 VLQ\<close>

text \<open>
  Modelled from the spec: the class \<open>Base64VLQ\<close> behind \<open>base64vlq.encode\<close> is not
  under src. The spec: "Signed integers encoded as groups of 5 data bits,
  least-significant group first, continuation bit = 6th bit; the sign is placed in the
  LSB of the first group (value = shift-left 1 bit, OR sign). Alphabet is the standard
  Base64."
\<close>

definition CHARACTERS :: string where
  "CHARACTERS = ''ABCDEFGHIJKLMNOPQRSTUVWXYZabcdefghijklmnopqrstuvwxyz0123456789+/''"

definition base64_encode :: "nat \<Rightarrow> char" where
  "base64_encode digit = CHARACTERS ! digit"

definition to_vlq_signed :: "int \<Rightarrow> nat" where
  "to_vlq_signed number = (if number < 0 then 2 * nat (- number) + 1 else 2 * nat number)"

fun encode_vlq :: "nat \<Rightarrow> string" where
  "encode_vlq vlq =
     (if vlq div 32 > 0 then base64_encode (vlq mod 32 + 32) # encode_vlq (vlq div 32)
      else [base64_encode (vlq mod 32)])"

definition encode :: "int \<Rightarrow> string" where
  "encode number = encode_vlq (to_vlq_signed number)"

text \<open>
  The reading of the same format: the index of a character in the alphabet, the groups
  up to the first one without continuation bit, and the sign from the lowest bit.
\<close>

fun index_of :: "'a \<Rightarrow> 'a list \<Rightarrow> nat option" where
  "index_of c [] = None"
| "index_of c (x # xs) = (if c = x then Some 0 else map_option Suc (index_of c xs))"

definition base64_decode :: "char \<Rightarrow> nat option" where
  "base64_decode c = index_of c CHARACTERS"

fun decode_vlq :: "string \<Rightarrow> (nat \<times> string) option" where
  "decode_vlq [] = None"
| "decode_vlq (c # cs) =
     (case base64_decode c of
        None \<Rightarrow> None
      | Some digit \<Rightarrow>
          if digit \<ge> 32
          then (case decode_vlq cs of
                  None \<Rightarrow> None
                | Some (vlq, rest) \<Rightarrow> Some (digit - 32 + 32 * vlq, rest))
          else Some (digit, cs))"

definition from_vlq_signed :: "nat \<Rightarrow> int" where
  "from_vlq_signed vlq = (if odd vlq then - int (vlq div 2) else int (vlq div 2))"

definition decode :: "string \<Rightarrow> (int \<times> string) option" where
  "decode s = (case decode_vlq s of None \<Rightarrow> None | Some (vlq, rest) \<Rightarrow> Some (from_vlq_signed vlq, rest))"

section \<open>Serialising the mappings (source_map.cpp)\<close>

text \<open>
  \<open>static_cast<int>\<close> of a \<open>size_t\<close> keeps the low 32 bits; the difference of two
  \<open>int\<close>s is taken in 32 bits, and \<open>encode\<close> gets its value as a signed number.
\<close>

definition static_cast_int :: "size_t \<Rightarrow> cint" where
  "static_cast_int x = ucast x"

definition int_difference :: "size_t \<Rightarrow> size_t \<Rightarrow> int" where
  "int_difference a b = sint (static_cast_int a - static_cast_int b)"

text \<open>The local variables of \<open>SourceMap::serialize_mappings\<close>.\<close>

record serialize_state =
  result :: string
  previous_generated_line :: size_t
  previous_generated_column :: size_t
  previous_original_line :: size_t
  previous_original_column :: size_t
  previous_original_file :: size_t

text \<open>The body of the loop, for the mapping at index \<open>i\<close>.\<close>

definition serialize_step :: "Mapping \<Rightarrow> nat \<Rightarrow> serialize_state \<Rightarrow> serialize_state" where
  "serialize_step mapping i st =
     (let generated_line = line (generated_position mapping);
          generated_column = column (generated_position mapping);
          original_line = line (original_position mapping);
          original_column = column (original_position mapping);
          original_file = file (original_position mapping);
          st = (if generated_line \<noteq> previous_generated_line st
                then (let st = st\<lparr>previous_generated_column := 0\<rparr>
                      in if generated_line > previous_generated_line st
                         then st\<lparr>result := result st @
                                   replicate (unat (generated_line - previous_generated_line st))
                                     CHR '';'',
                                 previous_generated_line := generated_line\<rparr>
                         else st)
                else if i > 0 then st\<lparr>result := result st @ '',''\<rparr>
                else st);
          st = st\<lparr>result := result st @
                  encode (int_difference generated_column (previous_generated_column st))\<rparr>;
          st = st\<lparr>previous_generated_column := generated_column\<rparr>;
          st = st\<lparr>result := result st @
                  encode (int_difference original_file (previous_original_file st))\<rparr>;
          st = st\<lparr>previous_original_file := original_file\<rparr>;
          st = st\<lparr>result := result st @
                  encode (int_difference original_line (previous_original_line st))\<rparr>;
          st = st\<lparr>previous_original_line := original_line\<rparr>;
          st = st\<lparr>result := result st @
                  encode (int_difference original_column (previous_original_column st))\<rparr>;
          st = st\<lparr>previous_original_column := original_column\<rparr>
      in st)"

fun serialize_loop :: "Mapping list \<Rightarrow> nat \<Rightarrow> serialize_state \<Rightarrow> serialize_state" where
  "serialize_loop [] i st = st"
| "serialize_loop (mapping # ms) i st = serialize_loop ms (i + 1) (serialize_step mapping i st)"

definition serialize_mappings :: "SourceMap \<Rightarrow> string" where
  "serialize_mappings m =
     result (serialize_loop (mappings m) 0
       \<lparr>result = [], previous_generated_line = 0, previous_generated_column = 0,
        previous_original_line = 0, previous_original_column = 0,
        previous_original_file = 0\<rparr>)"

text \<open>The values of the local variables before the loop.\<close>

definition serialize_init :: serialize_state where
  "serialize_init = \<lparr>result = [], previous_generated_line = 0, previous_generated_column = 0,
        previous_original_line = 0, previous_original_column = 0,
        previous_original_file = 0\<rparr>"

text \<open>
  What one round of the loop appends: the separators, one \<open>;\<close> for every line the
  generated line advances by, or a comma before an entry that is not the first, on the
  line of its predecessor; then the entry, four deltas to the previous values, where the
  previous generated column counts as 0 on a new line.
\<close>

definition separators :: "Mapping \<Rightarrow> nat \<Rightarrow> serialize_state \<Rightarrow> string" where
  "separators mapping i st =
     (if line (generated_position mapping) \<noteq> previous_generated_line st
      then (if line (generated_position mapping) > previous_generated_line st
            then replicate (unat (line (generated_position mapping) - previous_generated_line st))
                   CHR '';''
            else [])
      else if i > 0 then '','' else [])"

definition encoded_entry :: "Mapping \<Rightarrow> serialize_state \<Rightarrow> string" where
  "encoded_entry mapping st =
     encode (int_difference (column (generated_position mapping))
       (if line (generated_position mapping) \<noteq> previous_generated_line st then 0
        else previous_generated_column st)) @
     encode (int_difference (file (original_position mapping)) (previous_original_file st)) @
     encode (int_difference (line (original_position mapping)) (previous_original_line st)) @
     encode (int_difference (column (original_position mapping)) (previous_original_column st))"

text \<open>What the whole loop appends.\<close>

fun loop_output :: "Mapping list \<Rightarrow> nat \<Rightarrow> serialize_state \<Rightarrow> string" where
  "loop_output [] i st = []"
| "loop_output (mapping # ms) i st =
     separators mapping i st @ encoded_entry mapping st @
     loop_output ms (i + 1) (serialize_step mapping i st)"

text \<open>
  A value that \<open>static_cast<int>\<close> leaves as it is, and a mapping whose generated
  column, source index, original line and original column are such values.
\<close>

definition fits_int :: "size_t \<Rightarrow> bool" where
  "fits_int x \<longleftrightarrow> unat x < 2 ^ 31"

definition mapping_fits_int :: "Mapping \<Rightarrow> bool" where
  "mapping_fits_int mapping \<longleftrightarrow>
     fits_int (column (generated_position mapping)) \<and>
     fits_int (file (original_position mapping)) \<and>
     fits_int (line (original_position mapping)) \<and>
     fits_int (column (original_position mapping))"

text \<open>
  \<open>SourceMap::add_open_mapping\<close> appends the mapping of a node's position to the current
  position.
\<close>

definition add_open_mapping :: "Position \<Rightarrow> SourceMap \<Rightarrow> SourceMap" where
  "add_open_mapping pstate_of_node m =
     m\<lparr>mappings := mappings m @
         [\<lparr>original_position = pstate_of_node, generated_position = current_position m\<rparr>]\<rparr>"

subsection \<open>Reading the mappings back\<close>

text \<open>
  The triple of a mapping, "(generated, source_index, original)": the generated line
  and column, the index of the source file, the original line and column.
\<close>

type_synonym triple = "(int \<times> int) \<times> int \<times> (int \<times> int)"

definition triple_of :: "Mapping \<Rightarrow> triple" where
  "triple_of mapping =
     ((uint (line (generated_position mapping)), uint (column (generated_position mapping))),
      uint (file (original_position mapping)),
      (uint (line (original_position mapping)), uint (column (original_position mapping))))"

text \<open>
  The decoder of the stream the spec describes: "groups entries per generated line
  separated by ; and within a line by ,"; each entry is four deltas, for the generated
  column, the source index, the original line and the original column; the previous
  generated column is 0 at the start of every line, the other three previous values
  persist. An entry is followed by a separator or by the end of the string, and a comma
  by an entry.
\<close>

definition decode4 :: "string \<Rightarrow> ((int \<times> int \<times> int \<times> int) \<times> string) option" where
  "decode4 s =
     (case decode s of None \<Rightarrow> None | Some (a, s1) \<Rightarrow>
      case decode s1 of None \<Rightarrow> None | Some (b, s2) \<Rightarrow>
      case decode s2 of None \<Rightarrow> None | Some (c, s3) \<Rightarrow>
      case decode s3 of None \<Rightarrow> None | Some (d, s4) \<Rightarrow> Some ((a, b, c, d), s4))"

definition is_separator :: "char \<Rightarrow> bool" where
  "is_separator c \<longleftrightarrow> c = CHR '';'' \<or> c = CHR '',''"

function decode_mappings_from ::
  "int \<Rightarrow> int \<times> int \<times> int \<times> int \<Rightarrow> string \<Rightarrow> triple list option" where
  "decode_mappings_from generated_line previous [] = Some []"
| "decode_mappings_from generated_line previous (c # cs) =
     (if c = CHR '';''
      then (case previous of (pc, pf, pl, pcl) \<Rightarrow>
              decode_mappings_from (generated_line + 1) (0, pf, pl, pcl) cs)
      else if c = CHR '',''
      then (case cs of
              [] \<Rightarrow> None
            | c' # _ \<Rightarrow> if is_separator c' then None
                        else decode_mappings_from generated_line previous cs)
      else (case decode4 (c # cs) of
              None \<Rightarrow> None
            | Some ((d1, d2, d3, d4), rest) \<Rightarrow>
                (case previous of (pc, pf, pl, pcl) \<Rightarrow>
                   if length rest < length (c # cs) \<and> (rest = [] \<or> is_separator (hd rest))
                   then (case decode_mappings_from generated_line
                                 (pc + d1, pf + d2, pl + d3, pcl + d4) rest of
                           None \<Rightarrow> None
                         | Some ts \<Rightarrow>
                             Some (((generated_line, pc + d1), pf + d2, (pl + d3, pcl + d4)) # ts))
                   else None)))"
  by pat_completeness auto
termination
  by (relation "measure (\<lambda>(l, p, s). length s)") auto

definition decode_mappings :: "string \<Rightarrow> triple list option" where
  "decode_mappings s = decode_mappings_from 0 (0, 0, 0, 0) s"


section \<open>The Expression constructor\<close>

text \<open>
  C9. For every Expression constructed with delayed argument \<open>d\<close> and expanded argument
  \<open>e\<close>, the stored \<open>is_expanded\<close> flag equals \<open>d\<close> and does not depend on \<open>e\<close>:
  the constructor initialises \<open>is_expanded\<close> from the \<open>is_delayed\<close> argument.
\<close>

theorem Expression_is_expanded_aliases_is_delayed:
  "is_expanded (new_Expression ps d e i ct) = d \<and>
   is_delayed (new_Expression ps d e i ct) = d \<and>
   new_Expression ps d e i ct = new_Expression ps d e' i ct"
  by (simp add: new_Expression_def)

theorem Expression_is_expanded_aliases_is_delayed_witness:
  "is_expanded (new_Expression () False True False NONE) = False \<and>
   is_expanded (new_Expression () True False False NONE) = True"
  using Expression_is_expanded_aliases_is_delayed [of "()" False True False NONE]
    Expression_is_expanded_aliases_is_delayed [of "()" True False False NONE]
  by simp

section \<open>Appending a null element\<close>

text \<open>
  C10. For every Vectorized container and a null element, \<open>operator<<\<close> leaves the whole
  container as it was, whatever the hook \<open>adjust_after_pushing\<close> of the derived class
  does: no element is added, the cached hash is not reset and the hook is not called.
  In particular a Block keeps its \<open>has_hoistable\<close> and \<open>has_non_hoistable\<close> flags, a
  value list keeps its \<open>is_expanded\<close> flag, and a compound selector and a selector list
  keep their flags.
\<close>

theorem Vectorized_push_null_unchanged:
  "Vectorized_push adjust_after_pushing v None = v \<and>
   Block_push b None = b \<and>
   has_hoistable (Block_push b None) = has_hoistable b \<and>
   has_non_hoistable (Block_push b None) = has_non_hoistable b \<and>
   hash (Block_push b None) = hash b \<and>
   elements (Block_push b None) = elements b \<and>
   List_push l None = l \<and>
   Compound_push c None = c \<and>
   Selector_List_push adjust_list sl None = sl"
  by (simp add: Vectorized_push_def Block_push_def List_push_def Compound_push_def
      Selector_List_push_def)

text \<open>
  A block with a non-zero cached hash and both flags clear: the null element changes
  nothing, while a declaration resets the hash and sets \<open>has_non_hoistable\<close>.
\<close>

theorem Vectorized_push_null_unchanged_witness:
  "Block_push \<lparr>elements = [A_Ruleset], hash = 7, is_root = True, is_at_root = False,
       has_hoistable = False, has_non_hoistable = False\<rparr> None
   = \<lparr>elements = [A_Ruleset], hash = 7, is_root = True, is_at_root = False,
       has_hoistable = False, has_non_hoistable = False\<rparr> \<and>
   Block_push \<lparr>elements = [A_Ruleset], hash = 7, is_root = True, is_at_root = False,
       has_hoistable = False, has_non_hoistable = False\<rparr> (Some A_Declaration)
   = \<lparr>elements = [A_Ruleset, A_Declaration], hash = 0, is_root = True, is_at_root = False,
       has_hoistable = False, has_non_hoistable = True\<rparr>"
  using Vectorized_push_null_unchanged [of Block_adjust_after_pushing
      "\<lparr>elements = [A_Ruleset], hash = 7, is_root = True, is_at_root = False,
        has_hoistable = False, has_non_hoistable = False\<rparr>"]
  by (simp add: Block_push_def Vectorized_push_def Block_adjust_after_pushing_def
      reset_hash_def)


section \<open>Hashed containers: duplicate keys and key equality\<close>

lemma matches_iff: "matches hash_of k entry \<longleftrightarrow> hash_of (fst entry) = hash_of k"
  by (simp add: matches_def std_hash_def equal_to_def)

lemma um_find_assign_same:
  "hash_of k1 = hash_of k2 \<Longrightarrow>
   map_option snd (um_find hash_of (um_assign hash_of m k1 v) k2) = Some v"
  by (induction m) (auto simp: um_find_def matches_iff)

lemma um_find_assign_other:
  "hash_of k1 \<noteq> hash_of k2 \<Longrightarrow>
   um_find hash_of (um_assign hash_of m k1 v) k2 = um_find hash_of m k2"
  by (induction m) (auto simp: um_find_def matches_iff)

lemma um_find_assign_key:
  "um_find hash_of m k = Some (k0, v0) \<Longrightarrow>
   um_find hash_of (um_assign hash_of m k v) k = Some (k0, v)"
  by (induction m) (auto simp: um_find_def matches_iff)

lemma Map_push_fields:
  "H_list (Map_push hash_of m p) =
     (if has hash_of m (fst p) then H_list m else H_list m @ [fst p])"
  "duplicate_key (Map_push hash_of m p) =
     (if has hash_of m (fst p) \<and> duplicate_key m = None then Some (fst p)
      else duplicate_key m)"
  "H_elements (Map_push hash_of m p) = um_assign hash_of (H_elements m) (fst p) (snd p)"
  "H_hash (Map_push hash_of m p) = 0"
  by (simp_all add: Map_push_def Hashed_push_def Let_def Map_adjust_after_pushing_def
      Hashed_reset_hash_def has_def)

lemma duplicate_key_foldl:
  "duplicate_key m = Some d \<Longrightarrow> duplicate_key (foldl (Map_push hash_of) m ps) = Some d"
  by (induction ps arbitrary: m) (simp_all add: Map_push_fields)

text \<open>
  C6. For every map and every insertion of a pair \<open>(k, v)\<close> whose key the table already
  has, the insertion leaves the insertion-ordered key list as it was (the key is not
  appended again), makes \<open>v\<close> the stored value of that key and leaves the entries of
  all other keys alone, and records the duplicate: \<open>has_duplicate_key\<close> holds after it
  and after any further insertions, and \<open>get_duplicate_key\<close> is the first key for which
  that happened, that is, the one recorded before if there was one and \<open>k\<close> otherwise,
  and further insertions never change it.
\<close>

theorem Hashed_push_duplicate_key:
  assumes "has hash_of m k"
  shows "keys (Map_push hash_of m (k, v)) = keys m \<and>
    map_option snd (um_find hash_of (H_elements (Map_push hash_of m (k, v))) k) = Some v \<and>
    (\<forall>k'. hash_of k' \<noteq> hash_of k \<longrightarrow>
       um_find hash_of (H_elements (Map_push hash_of m (k, v))) k' =
       um_find hash_of (H_elements m) k') \<and>
    has_duplicate_key (Map_push hash_of m (k, v)) \<and>
    get_duplicate_key (Map_push hash_of m (k, v)) =
      (case get_duplicate_key m of None \<Rightarrow> Some k | Some d \<Rightarrow> Some d) \<and>
    (\<forall>ps. has_duplicate_key (foldl (Map_push hash_of) (Map_push hash_of m (k, v)) ps) \<and>
       get_duplicate_key (foldl (Map_push hash_of) (Map_push hash_of m (k, v)) ps) =
       get_duplicate_key (Map_push hash_of m (k, v)))"
proof -
  let ?m' = "Map_push hash_of m (k, v)"
  have keys: "keys ?m' = keys m"
    using assms by (simp add: keys_def Map_push_fields)
  have val: "map_option snd (um_find hash_of (H_elements ?m') k) = Some v"
    by (simp add: Map_push_fields um_find_assign_same)
  have other: "\<forall>k'. hash_of k' \<noteq> hash_of k \<longrightarrow>
       um_find hash_of (H_elements ?m') k' = um_find hash_of (H_elements m) k'"
    by (simp add: Map_push_fields um_find_assign_other)
  have dup: "get_duplicate_key ?m' =
      (case get_duplicate_key m of None \<Rightarrow> Some k | Some d \<Rightarrow> Some d)"
    using assms by (simp add: get_duplicate_key_def Map_push_fields split: option.splits)
  obtain d where d: "duplicate_key ?m' = Some d"
    using dup by (cases "duplicate_key m") (simp_all add: get_duplicate_key_def)
  have now: "has_duplicate_key ?m'"
    using d by (simp add: has_duplicate_key_def)
  have stays: "has_duplicate_key (foldl (Map_push hash_of) ?m' ps) \<and>
       get_duplicate_key (foldl (Map_push hash_of) ?m' ps) = get_duplicate_key ?m'" for ps
    using duplicate_key_foldl [OF d, of hash_of ps] d
    by (simp add: has_duplicate_key_def get_duplicate_key_def)
  from keys val other now dup stays show ?thesis by blast
qed

text \<open>
  C7. For all keys \<open>k1\<close> and \<open>k2\<close> with equal hashes, whether or not they are equal
  as expressions: after inserting \<open>(k1, v)\<close>, \<open>has(k2)\<close> is true and \<open>at(k2)\<close> is
  \<open>v\<close>, for a Map and for a plain Hashed whose hook does nothing.
\<close>

theorem Hashed_keys_equal_by_hash:
  assumes "hash_of k1 = hash_of k2"
  shows "has hash_of (Map_push hash_of m (k1, v)) k2 \<and>
         at hash_of (Map_push hash_of m (k1, v)) k2 = Some v \<and>
         has hash_of (Hashed_push hash_of (\<lambda>p h. h) h (k1, v)) k2 \<and>
         at hash_of (Hashed_push hash_of (\<lambda>p h. h) h (k1, v)) k2 = Some v"
proof -
  have f: "map_option snd (um_find hash_of (um_assign hash_of t k1 v) k2) = Some v" for t
    using assms by (rule um_find_assign_same)
  have e: "H_elements (Hashed_push hash_of (\<lambda>p h. h) h (k1, v)) =
      um_assign hash_of (H_elements h) k1 v"
    by (simp add: Hashed_push_def Let_def Hashed_reset_hash_def)
  have 1: "at hash_of (Map_push hash_of m (k1, v)) k2 = Some v"
    using f [of "H_elements m"] by (simp add: at_def Map_push_fields)
  have 2: "at hash_of (Hashed_push hash_of (\<lambda>p h. h) h (k1, v)) k2 = Some v"
    using f [of "H_elements h"] by (simp add: at_def e)
  have 3: "has hash_of m' k2" if "at hash_of m' k2 = Some v" for m' :: "('a, 'z) Hashed_scheme"
    using that by (auto simp: has_def at_def um_count_def split: option.splits)
  from 1 2 3 [OF 1] 3 [OF 2] show ?thesis by blast
qed

text \<open>
  Two distinct keys under the hash of the base class, which is 0 for every expression:
  the second insertion is a duplicate of the first.
\<close>

theorem Hashed_push_duplicate_key_witness:
  "has Expression_hash (Map_push Expression_hash (new_Map 0) (1 :: nat, 10)) 2 \<and>
   keys (Map_push Expression_hash (Map_push Expression_hash (new_Map 0) (1 :: nat, 10)) (2, 20))
     = [1] \<and>
   um_find Expression_hash
     (H_elements (Map_push Expression_hash (Map_push Expression_hash (new_Map 0) (1 :: nat, 10))
        (2, 20))) 2 = Some (1, 20) \<and>
   get_duplicate_key
     (Map_push Expression_hash (Map_push Expression_hash (new_Map 0) (1 :: nat, 10)) (2, 20))
     = Some 2 \<and>
   get_duplicate_key
     (foldl (Map_push Expression_hash)
        (Map_push Expression_hash (Map_push Expression_hash (new_Map 0) (1 :: nat, 10)) (2, 20))
        [(3, 30), (4, 40)])
     = Some 2"
proof -
  let ?m = "Map_push Expression_hash (new_Map 0) (1 :: nat, 10)"
  have h: "has Expression_hash ?m 2"
    by (simp add: Map_push_fields has_def um_count_def um_find_def matches_iff
        Expression_hash_def new_Map_def)
  have m: "get_duplicate_key ?m = None" "keys ?m = [1]"
    by (simp_all add: Map_push_fields get_duplicate_key_def keys_def has_def um_count_def
        um_find_def new_Map_def)
  have f: "um_find Expression_hash (H_elements (Map_push Expression_hash ?m (2, 20))) 2
      = Some (1, 20)"
    by (simp add: Map_push_fields um_find_def matches_iff Expression_hash_def new_Map_def)
  note T = Hashed_push_duplicate_key [OF h, of 20]
  have k: "keys (Map_push Expression_hash ?m (2, 20)) = [1]"
    using T m by simp
  have g: "get_duplicate_key (Map_push Expression_hash ?m (2, 20)) = Some 2"
    using T m by simp
  have s: "get_duplicate_key
      (foldl (Map_push Expression_hash) (Map_push Expression_hash ?m (2, 20))
         [(3, 30), (4, 40)]) = Some 2"
    using T g by metis
  from h k f g s show ?thesis by blast
qed

theorem Hashed_keys_equal_by_hash_witness:
  "Expression_hash (1 :: nat) = Expression_hash (2 :: nat) \<and> (1 :: nat) \<noteq> 2 \<and>
   has Expression_hash (Map_push Expression_hash (new_Map 0) (1 :: nat, 10)) 2 \<and>
   at Expression_hash (Map_push Expression_hash (new_Map 0) (1 :: nat, 10)) 2 = Some 10"
proof -
  have h: "Expression_hash (1 :: nat) = Expression_hash (2 :: nat)"
    by (simp add: Expression_hash_def)
  show ?thesis
    using Hashed_keys_equal_by_hash [of Expression_hash 1 2 "new_Map 0" 10 "new_Map 0", OF h] h
    by simp
qed


section \<open>Specificity of simple selectors\<close>

lemma is_pseudo_element_iff:
  "is_pseudo_element n \<longleftrightarrow>
     (\<exists>r. n = '':'' @ '':'' @ r) \<or> n = '':before'' \<or> n = '':after'' \<or>
     n = '':first-line'' \<or> n = '':first-letter''"
proof -
  have "(char_at n 0 = CHR '':'' \<and> char_at n 1 = CHR '':'') \<longleftrightarrow> (\<exists>r. n = '':'' @ '':'' @ r)"
  proof (cases n)
    case Nil
    then show ?thesis by (simp add: char_at_def)
  next
    case (Cons a m)
    then show ?thesis by (cases m) (auto simp: char_at_def)
  qed
  then show ?thesis
    by (simp add: is_pseudo_element_def is_pseudo_class_element_def)
qed

text \<open>
  C2, as the code has it. For every simple selector, \<open>specificity()\<close> is: Parent 0;
  Placeholder the default of class \<open>Selector\<close>, \<open>Specificity_Universal\<close>, the value the
  universal type selector has, and not the class weight; Type the type weight, and
  \<open>Specificity_Universal\<close> for the name \<open>*\<close>; Qualifier the id weight for a name that
  starts with \<open>#\<close>, the class weight for one that starts with \<open>.\<close>, else the type
  weight; Attribute the attribute weight; Pseudo the type weight for a pseudo-element
  (a name that starts with \<open>::\<close>, or one of \<open>:before\<close>, \<open>:after\<close>, \<open>:first-line\<close>,
  \<open>:first-letter\<close>), else the pseudo-class weight.
\<close>

theorem Simple_specificity_table:
  "Simple_specificity K (Parent_Selector p) = 0 \<and>
   Simple_specificity K (Selector_Placeholder p) = Specificity_Universal K \<and>
   Simple_specificity K (Type_Selector p) =
     (if name p = ''*'' then Specificity_Universal K else Specificity_Type K) \<and>
   Simple_specificity K (Selector_Qualifier p) =
     (case name p of
        [] \<Rightarrow> Specificity_Type K
      | c # r \<Rightarrow> if c = CHR ''#'' then Specificity_ID K
                 else if c = CHR ''.'' then Specificity_Class K
                 else Specificity_Type K) \<and>
   Simple_specificity K (Attribute_Selector p m v) = Specificity_Attr K \<and>
   Simple_specificity K (Pseudo_Selector p e) =
     (if (\<exists>r. name p = '':'' @ '':'' @ r) \<or> name p = '':before'' \<or> name p = '':after'' \<or>
         name p = '':first-line'' \<or> name p = '':first-letter''
      then Specificity_Type K else Specificity_Pseudo K)"
proof -
  have q: "Simple_specificity K (Selector_Qualifier p) =
     (case name p of
        [] \<Rightarrow> Specificity_Type K
      | c # r \<Rightarrow> if c = CHR ''#'' then Specificity_ID K
                 else if c = CHR ''.'' then Specificity_Class K
                 else Specificity_Type K)"
    by (simp add: char_at_def split: list.splits)
  have e: "Simple_specificity K (Pseudo_Selector p e) =
     (if (\<exists>r. name p = '':'' @ '':'' @ r) \<or> name p = '':before'' \<or> name p = '':after'' \<or>
         name p = '':first-line'' \<or> name p = '':first-letter''
      then Specificity_Type K else Specificity_Pseudo K)"
    unfolding Simple_specificity.simps is_pseudo_element_iff ..
  show ?thesis
    using q e by simp
qed

text \<open>
  The selectors \<open>#main\<close>, \<open>.nav\<close>, \<open>div\<close>, \<open>*\<close>, \<open>::after\<close>, \<open>:hover\<close> and
  \<open>%button\<close> as their constructors build them.
\<close>

theorem Simple_specificity_table_witness:
  "Simple_specificity Constants_levels new_Parent_Selector = 0 \<and>
   Simple_specificity Constants_levels (new_Selector_Qualifier ''#main'') = 0x1000000 \<and>
   Simple_specificity Constants_levels (new_Selector_Qualifier ''.nav'') = 0x10000 \<and>
   Simple_specificity Constants_levels (new_Type_Selector ''div'') = 0x100 \<and>
   Simple_specificity Constants_levels (new_Type_Selector ''*'') = 0 \<and>
   Simple_specificity Constants_levels (new_Pseudo_Selector ''::after'' None) = 0x100 \<and>
   Simple_specificity Constants_levels (new_Pseudo_Selector '':hover'' None) = 0x10000 \<and>
   Simple_specificity Constants_levels (new_Selector_Placeholder ''%button'') = 0"
  using Simple_specificity_table [of Constants_levels "new_Simple_Selector ''#main''"]
  by (simp add: new_Parent_Selector_def new_Selector_Qualifier_def new_Type_Selector_def
      new_Pseudo_Selector_def new_Selector_Placeholder_def new_Simple_Selector_def
      Constants_levels_def char_at_def is_pseudo_element_def is_pseudo_class_element_def)

text \<open>
  C2 as stated fails: the specificity of a placeholder selector is not the class weight,
  unless the class weight is the weight of the universal selector.
\<close>

lemma Placeholder_specificity_class_iff:
  "Simple_specificity K (Selector_Placeholder p) = Specificity_Class K \<longleftrightarrow>
   Specificity_Universal K = Specificity_Class K"
  by simp


theorem Placeholder_specificity_not_class:
  "Simple_specificity Constants_levels (new_Selector_Placeholder ''%button'')
   \<noteq> Specificity_Class Constants_levels"
  by (simp add: new_Selector_Placeholder_def Constants_levels_def)

section \<open>Invisible rulesets\<close>

lemma is_invisible_loop_eq:
  "is_invisible_loop cs b \<longleftrightarrow> b \<and> list_all (\<lambda>c. has_placeholder (Complex_props c)) cs"
  by (induction cs arbitrary: b) auto

lemma Compound_push_Some:
  "has_placeholder (Compound_props (Compound_push c (Some s))) \<longleftrightarrow>
     has_placeholder (Compound_props c) \<or> has_placeholder (Simple_props_of s)"
  "Compound_elements (Compound_push c (Some s)) = Compound_elements c @ [s]"
  by (cases c; simp add: Compound_push_def Compound_adjust_after_pushing_def Let_def)+

lemma new_Complex_Selector_has_placeholder:
  "has_placeholder (Complex_props (new_Complex_Selector cmb h t)) \<longleftrightarrow>
     (case h of None \<Rightarrow> False | Some h' \<Rightarrow> has_placeholder (Compound_props h')) \<or>
     (case t of None \<Rightarrow> False | Some t' \<Rightarrow> has_placeholder (Complex_props t'))"
  by (simp add: new_Complex_Selector_def new_Selector_def Let_def)

text \<open>
  C3, as the code has it. For every Ruleset whose selector is a Selector_List,
  \<open>is_invisible()\<close> is true if and only if every alternative of the list has its
  \<open>has_placeholder\<close> flag set. The constructor of a complex selector sets that flag when
  its head or its tail has it, and \<open>operator<<\<close> of a compound selector when the simple
  selector pushed has it: the flag says that the alternative contains a placeholder,
  not that it is made of placeholders only.
\<close>

theorem Ruleset_is_invisible_iff_flags:
  "Ruleset_is_invisible r =
     (case selector r of
        Some (A_List sl) \<Rightarrow>
          Some (list_all (\<lambda>c. has_placeholder (Complex_props c)) (List_elements sl))
      | _ \<Rightarrow> None) \<and>
   (has_placeholder (Complex_props (new_Complex_Selector cmb h t)) \<longleftrightarrow>
     (case h of None \<Rightarrow> False | Some h' \<Rightarrow> has_placeholder (Compound_props h')) \<or>
     (case t of None \<Rightarrow> False | Some t' \<Rightarrow> has_placeholder (Complex_props t'))) \<and>
   (has_placeholder (Compound_props (Compound_push c (Some s))) \<longleftrightarrow>
     has_placeholder (Compound_props c) \<or> has_placeholder (Simple_props_of s)) \<and>
   has_placeholder (Simple_props_of (new_Selector_Placeholder n)) \<and>
   \<not> has_placeholder (Simple_props_of (new_Selector_Qualifier n)) \<and>
   \<not> has_placeholder (Simple_props_of (new_Type_Selector n))"
proof -
  have "Ruleset_is_invisible r =
     (case selector r of
        Some (A_List sl) \<Rightarrow>
          Some (list_all (\<lambda>c. has_placeholder (Complex_props c)) (List_elements sl))
      | _ \<Rightarrow> None)"
    by (simp add: Ruleset_is_invisible_def is_invisible_loop_eq
        split: option.splits Selector.splits)
  moreover have "has_placeholder (Simple_props_of (new_Selector_Placeholder n))"
    "\<not> has_placeholder (Simple_props_of (new_Selector_Qualifier n))"
    "\<not> has_placeholder (Simple_props_of (new_Type_Selector n))"
    by (simp_all add: new_Selector_Placeholder_def new_Selector_Qualifier_def
        new_Type_Selector_def new_Simple_Selector_def)
  ultimately show ?thesis
    using new_Complex_Selector_has_placeholder [of cmb h t] Compound_push_Some(1) [of c s]
    by blast
qed

text \<open>
  The rulesets of \<open>%p\<close> and of \<open>.a\<close>: the first is invisible, the second is not.
\<close>

theorem Ruleset_is_invisible_iff_flags_witness:
  "Ruleset_is_invisible
     \<lparr>Ruleset_block = None,
      selector = Some (A_List (Selector_List (new_Selector False False)
        [new_Complex_Selector ANCESTOR_OF
           (Some (Compound_push (new_Compound_Selector 0)
              (Some (new_Selector_Placeholder ''%p''))))
           None] 0)),
      at_root = False\<rparr> = Some True \<and>
   Ruleset_is_invisible
     \<lparr>Ruleset_block = None,
      selector = Some (A_List (Selector_List (new_Selector False False)
        [new_Complex_Selector ANCESTOR_OF
           (Some (Compound_push (new_Compound_Selector 0)
              (Some (new_Selector_Qualifier ''.a''))))
           None] 0)),
      at_root = False\<rparr> = Some False"
  using Ruleset_is_invisible_iff_flags [of
      "\<lparr>Ruleset_block = None,
      selector = Some (A_List (Selector_List (new_Selector False False)
        [new_Complex_Selector ANCESTOR_OF
           (Some (Compound_push (new_Compound_Selector 0)
              (Some (new_Selector_Placeholder ''%p''))))
           None] 0)),
      at_root = False\<rparr>"]
    Ruleset_is_invisible_iff_flags [of
      "\<lparr>Ruleset_block = None,
      selector = Some (A_List (Selector_List (new_Selector False False)
        [new_Complex_Selector ANCESTOR_OF
           (Some (Compound_push (new_Compound_Selector 0)
              (Some (new_Selector_Qualifier ''.a''))))
           None] 0)),
      at_root = False\<rparr>"]
  by (simp add: new_Complex_Selector_def Compound_push_def
      new_Compound_Selector_def Compound_adjust_after_pushing_def new_Selector_def
      new_Selector_Qualifier_def new_Selector_Placeholder_def new_Simple_Selector_def)

text \<open>
  C3 as stated fails: the ruleset of the single alternative \<open>.a%p\<close>, a compound of a
  class and a placeholder, is invisible, and the alternative is not a placeholder-only
  selector.
\<close>

theorem Ruleset_invisible_not_placeholder_only:
  "Ruleset_is_invisible
     \<lparr>Ruleset_block = None,
      selector = Some (A_List (Selector_List (new_Selector False False)
        [new_Complex_Selector ANCESTOR_OF
           (Some (Compound_push (Compound_push (new_Compound_Selector 0)
              (Some (new_Selector_Qualifier ''.a''))) (Some (new_Selector_Placeholder ''%p''))))
           None] 0)),
      at_root = False\<rparr> = Some True \<and>
   \<not> list_all placeholder_only
     [new_Complex_Selector ANCESTOR_OF
           (Some (Compound_push (Compound_push (new_Compound_Selector 0)
              (Some (new_Selector_Qualifier ''.a''))) (Some (new_Selector_Placeholder ''%p''))))
           None]"
  by (simp add: Ruleset_is_invisible_def new_Complex_Selector_def Compound_push_def
      new_Compound_Selector_def Compound_adjust_after_pushing_def new_Selector_def
      new_Selector_Qualifier_def new_Selector_Placeholder_def new_Simple_Selector_def)

section \<open>Specificity of compound and complex selectors and of selector lists\<close>

subsection \<open>Conversions between int and unsigned long\<close>

lemma ucast_down_plus: "(ucast ((a::64 word) + b) :: 32 word) = ucast a + ucast b"
proof (rule word_uint_eqI)
  have l: "uint (ucast (a + b) :: 32 word) = take_bit 32 (uint a + uint b)"
    by (simp only: unsigned_ucast_eq uint_word_arith_bintrs take_bit_take_bit) (simp?)
  have r: "uint ((ucast a :: 32 word) + ucast b) = take_bit 32 (uint a + uint b)"
    by (simp only: unsigned_ucast_eq uint_word_arith_bintrs take_bit_add) (simp?)
  show "uint (ucast (a + b) :: 32 word) = uint ((ucast a :: 32 word) + ucast b)"
    by (simp only: l r)
qed

lemma ucast_scast_down: "(ucast (scast (w :: 32 word) :: 64 word) :: 32 word) = w"
proof (rule word_uint_eqI)
  have "uint (ucast (scast w :: 64 word) :: 32 word) = take_bit 32 (uint (scast w :: 64 word))"
    by (simp only: unsigned_ucast_eq) (simp?)
  also have "uint (scast w :: 64 word) = take_bit 64 (sint w)"
    by (simp only: scast_eq uint_word_of_int_eq) (simp?)
  also have "take_bit 32 (take_bit 64 (sint w)) = take_bit 32 (sint w)"
    by (simp only: take_bit_take_bit) (simp?)
  also have "\<dots> = take_bit 32 (signed_take_bit 31 (uint w))"
    by (simp only: sint_uint) (simp?)
  also have "\<dots> = take_bit 32 (uint w)"
    by (rule take_bit_signed_take_bit) simp
  also have "\<dots> = uint w"
    by (simp add: take_bit_int_eq_self_iff uint_lt2p [of w, simplified])
  finally show "uint (ucast (scast w :: 64 word) :: 32 word) = uint w" .
qed

lemma sint_ucast_small:
  assumes "unat (x :: 64 word) < 2 ^ 31"
  shows "sint (ucast x :: 32 word) = int (unat x)"
proof -
  have "int (unat x) < 2 ^ 31"
    using assms by (metis of_nat_less_numeral_power_cancel_iff)
  moreover have "- (2 ^ 31) \<le> int (unat x)"
    by (rule order_trans [of _ 0]) simp_all
  ultimately have "signed_take_bit 31 (int (unat x)) = int (unat x)"
    by (intro signed_take_bit_int_eq_self)
  moreover have "sint (ucast x :: 32 word) = signed_take_bit 31 (int (unat x))"
    by (simp only: signed_ucast_eq) (simp?)
  ultimately show ?thesis by (simp only:)
qed

lemma sint_plus_small:
  assumes "0 \<le> sint (a :: 32 word)" "0 \<le> sint (b :: 32 word)" "sint a + sint b < 2 ^ 31"
  shows "sint (a + b) = sint a + sint b"
proof -
  have "signed_take_bit 31 (sint a + sint b) = sint a + sint b"
    using assms by (intro signed_take_bit_int_eq_self) simp_all
  moreover have "sint (a + b) = signed_take_bit 31 (sint a + sint b)"
    by (simp only: sint_word_add) (simp?)
  ultimately show ?thesis by simp
qed

lemma sint_minus_small:
  assumes "0 \<le> sint (a :: 32 word)" "0 \<le> sint (b :: 32 word)"
  shows "sint (a - b) = sint a - sint b"
proof -
  have "sint a < 2 ^ 31" "sint b < 2 ^ 31"
    using sint_lt [of a] sint_lt [of b] by simp_all
  then have "- (2 ^ 31) \<le> sint a - sint b" "sint a - sint b < 2 ^ 31"
    using assms by simp_all
  then have "signed_take_bit 31 (sint a - sint b) = sint a - sint b"
    by (rule signed_take_bit_int_eq_self)
  moreover have "sint (a - b) = signed_take_bit 31 (sint a - sint b)"
    by (simp only: sint_word_diff) (simp?)
  ultimately show ?thesis by simp
qed

lemma scast_up_nonneg:
  assumes "0 \<le> sint (w :: 32 word)"
  shows "uint (scast w :: 64 word) = sint w"
proof -
  have "sint w < 2 ^ 31" using sint_lt [of w] by simp
  then have "sint w < 2 ^ 64" by simp
  then have "take_bit 64 (sint w) = sint w"
    using assms by (simp add: take_bit_int_eq_self)
  moreover have "uint (scast w :: 64 word) = take_bit 64 (sint w)"
    by (simp only: scast_eq uint_word_of_int_eq) (simp?)
  ultimately show ?thesis by simp
qed


subsection \<open>The loops\<close>

lemma int_plus_ulong_eq: "int_plus_ulong acc x = acc + ucast x"
  by (simp only: int_plus_ulong_def ucast_down_plus ucast_scast_down)

lemma Compound_specificity_eq:
  "Compound_specificity K c =
     int_to_ulong (fold (\<lambda>s acc. int_plus_ulong acc (Simple_specificity K s))
       (Compound_elements c) 0)"
  by (cases c) simp

lemma Complex_specificity_eq:
  "Complex_specificity K c =
     int_to_ulong
       (int_plus_ulong
          (int_plus_ulong 0
             (case head c of None \<Rightarrow> 0 | Some h \<Rightarrow> Compound_specificity K h))
          (case tail c of None \<Rightarrow> 0 | Some t \<Rightarrow> Complex_specificity K t))"
  by (cases c) (simp add: int_plus_ulong_eq split: option.splits)

lemma List_specificity_eq:
  "List_specificity K l =
     fold (\<lambda>c acc. max acc (Complex_specificity K c)) (List_elements l) 0"
proof -
  have "(\<lambda>c acc. let specificity = Complex_specificity K c
                   in if acc < specificity then specificity else acc) =
        (\<lambda>c acc. max acc (Complex_specificity K c))"
    by (intro ext) (auto simp: Let_def max_def)
  then show ?thesis
    by (cases l) simp
qed

lemma fold_max_eq_Max:
  "fold (\<lambda>c acc. max acc (f c)) cs (a :: 'a :: linorder) = Max (insert a (f ` set cs))"
proof (induction cs arbitrary: a)
  case Nil
  then show ?case by simp
next
  case (Cons c cs)
  have "Max (insert (max a (f c)) (f ` set cs)) = Max (insert a (insert (f c) (f ` set cs)))"
  proof (cases "set cs = {}")
    case True
    then show ?thesis by simp
  next
    case False
    then show ?thesis by (simp add: max.assoc)
  qed
  with Cons show ?case by simp
qed

lemma List_specificity_Max:
  "List_specificity K l = Max (insert 0 (Complex_specificity K ` set (List_elements l)))"
  by (simp only: List_specificity_eq fold_max_eq_Max)

lemma fold_int_plus_ulong_no_overflow:
  assumes "0 \<le> sint acc"
    and "sint acc + int (sum_list (map (\<lambda>s. unat (f s)) es)) < 2 ^ 31"
  shows "sint (fold (\<lambda>s acc. int_plus_ulong acc (f s)) es acc) =
         sint acc + int (sum_list (map (\<lambda>s. unat (f s)) es))"
  using assms
proof (induction es arbitrary: acc)
  case Nil
  then show ?case by simp
next
  case (Cons e es)
  have "int (unat (f e)) < 2 ^ 31"
    using Cons.prems by simp
  then have small: "unat (f e) < 2 ^ 31"
    by (metis of_nat_less_numeral_power_cancel_iff)
  have e: "sint (ucast (f e) :: 32 word) = int (unat (f e))"
    using small by (rule sint_ucast_small)
  have step: "sint (int_plus_ulong acc (f e)) = sint acc + int (unat (f e))"
    unfolding int_plus_ulong_eq
    using sint_plus_small [of acc "ucast (f e)"] Cons.prems e by simp
  have "sint (fold (\<lambda>s acc. int_plus_ulong acc (f s)) es (int_plus_ulong acc (f e))) =
        sint (int_plus_ulong acc (f e)) + int (sum_list (map (\<lambda>s. unat (f s)) es))"
    using Cons.prems step by (intro Cons.IH) simp_all
  then show ?case
    using step by simp
qed

lemma int_to_ulong_nonneg:
  assumes "0 \<le> sint w"
  shows "unat (int_to_ulong w) = nat (sint w)"
  using scast_up_nonneg [OF assms] by (simp add: int_to_ulong_def unat_eq_nat_uint)

lemma Compound_specificity_no_overflow:
  assumes "sum_list (map (\<lambda>s. unat (Simple_specificity K s)) (Compound_elements c)) < 2 ^ 31"
  shows "unat (Compound_specificity K c) =
         sum_list (map (\<lambda>s. unat (Simple_specificity K s)) (Compound_elements c))"
proof -
  let ?n = "sum_list (map (\<lambda>s. unat (Simple_specificity K s)) (Compound_elements c))"
  let ?w = "fold (\<lambda>s acc. int_plus_ulong acc (Simple_specificity K s)) (Compound_elements c) 0"
  have "int ?n < 2 ^ 31"
    using assms by (metis of_nat_less_numeral_power_cancel_iff)
  then have "sint ?w = sint (0 :: 32 word) + int ?n"
    by (intro fold_int_plus_ulong_no_overflow) simp_all
  then have w: "sint ?w = int ?n"
    by simp
  then have "0 \<le> sint ?w"
    by simp
  then have "unat (int_to_ulong ?w) = nat (sint ?w)"
    by (rule int_to_ulong_nonneg)
  then show ?thesis
    by (simp only: Compound_specificity_eq w nat_int)
qed

lemma Complex_specificity_no_overflow:
  assumes "unat (case head c of None \<Rightarrow> 0 | Some h \<Rightarrow> Compound_specificity K h) +
           unat (case tail c of None \<Rightarrow> 0 | Some t \<Rightarrow> Complex_specificity K t) < 2 ^ 31"
  shows "Complex_specificity K c =
           (case head c of None \<Rightarrow> 0 | Some h \<Rightarrow> Compound_specificity K h) +
           (case tail c of None \<Rightarrow> 0 | Some t \<Rightarrow> Complex_specificity K t)"
proof -
  let ?h = "case head c of None \<Rightarrow> 0 | Some h \<Rightarrow> Compound_specificity K h"
  let ?t = "case tail c of None \<Rightarrow> 0 | Some t \<Rightarrow> Complex_specificity K t"
  let ?w = "fold (\<lambda>x acc. int_plus_ulong acc x) [?h, ?t] 0"
  have "int (unat ?h + unat ?t) < 2 ^ 31"
    using assms by (metis of_nat_less_numeral_power_cancel_iff)
  then have "sint ?w = sint (0 :: 32 word) + int (sum_list (map (\<lambda>x. unat x) [?h, ?t]))"
    by (intro fold_int_plus_ulong_no_overflow) simp_all
  then have w: "sint ?w = int (unat ?h + unat ?t)"
    by simp
  then have "0 \<le> sint ?w"
    by simp
  then have "unat (int_to_ulong ?w) = nat (sint ?w)"
    by (rule int_to_ulong_nonneg)
  then have u: "unat (int_to_ulong ?w) = unat ?h + unat ?t"
    by (simp only: w nat_int)
  have "unat ?h + unat ?t < 2 ^ 64"
    using assms by simp
  then have "unat (?h + ?t) = unat ?h + unat ?t"
    by (simp add: unat_add_lem [THEN iffD1])
  with u have "unat (int_to_ulong ?w) = unat (?h + ?t)"
    by simp
  then have "int_to_ulong ?w = ?h + ?t"
    by (simp only: word_unat_eq_iff)
  moreover have "Complex_specificity K c = int_to_ulong ?w"
    by (simp add: Complex_specificity_eq)
  ultimately show ?thesis
    by simp
qed

lemma foldl_Compound_push_elements:
  "Compound_elements (foldl Compound_push c (map Some ss)) = Compound_elements c @ ss"
proof (induction ss arbitrary: c)
  case Nil
  then show ?case by simp
next
  case (Cons s ss)
  have "Compound_elements (Compound_push c (Some s)) = Compound_elements c @ [s]"
    by (cases c) (simp add: Compound_push_def Compound_adjust_after_pushing_def Let_def)
  with Cons show ?case by simp
qed

lemma fold_replicate_plus:
  "fold (\<lambda>s acc. int_plus_ulong acc (f s)) (replicate n s) acc = acc + of_nat n * ucast (f s)"
  by (induction n arbitrary: acc) (simp_all add: int_plus_ulong_eq algebra_simps)

lemma Compound_specificity_replicate:
  "Compound_specificity K (foldl Compound_push (new_Compound_Selector h0) (replicate n (Some s)))
   = int_to_ulong (of_nat n * ucast (Simple_specificity K s))"
proof -
  let ?c = "foldl Compound_push (new_Compound_Selector h0) (replicate n (Some s))"
  have "Compound_elements (foldl Compound_push (new_Compound_Selector h0) (map Some (replicate n s)))
        = replicate n s"
    by (simp only: foldl_Compound_push_elements) (simp add: new_Compound_Selector_def)
  then have e: "Compound_elements ?c = replicate n s"
    by (simp only: map_replicate)
  have "Compound_specificity K ?c =
      int_to_ulong (fold (\<lambda>s acc. int_plus_ulong acc (Simple_specificity K s)) (replicate n s) 0)"
    by (simp only: Compound_specificity_eq e)
  also have "\<dots> = int_to_ulong (0 + of_nat n * ucast (Simple_specificity K s))"
    by (simp only: fold_replicate_plus)
  finally show ?thesis
    by simp
qed


lemma exists_wrapping_count:
  assumes "0 < (w :: nat)" "w < 2 ^ 31"
  shows "\<exists>n. 2 ^ 31 \<le> n * w \<and> n * w < 2 ^ 32"
proof -
  define q where "q = (2 ^ 31 - 1) div w"
  define r where "r = (2 ^ 31 - 1) mod w"
  have "q * w + r = 2 ^ 31 - 1"
    unfolding q_def r_def by (rule div_mult_mod_eq)
  then have d: "q * w + r = 2147483647"
    by simp
  have m: "r < w"
    using assms(1) by (simp add: r_def)
  have w: "w < 2147483648"
    using assms(2) by simp
  have "2147483648 \<le> (q + 1) * w" "(q + 1) * w < 4294967296"
    using d m w by (simp_all add: algebra_simps)
  then have "2 ^ 31 \<le> (q + 1) * w \<and> (q + 1) * w < 2 ^ 32"
    by simp
  then show ?thesis ..
qed

lemma sint_negative:
  assumes "2 ^ 31 \<le> uint (x :: 32 word)"
  shows "sint x = uint x - 2 ^ 32"
proof -
  have b: "- (2 ^ 31) \<le> sint x" "sint x < 2 ^ 31"
    using sint_ge [of x] sint_lt [of x] by simp_all
  have u: "uint x = sint x mod 2 ^ 32"
    by (simp only: uint_sint [of x] take_bit_eq_mod) simp
  have neg: "sint x < 0"
  proof (rule ccontr)
    assume "\<not> sint x < 0"
    then have "sint x mod 2 ^ 32 = sint x"
      using b by (intro mod_pos_pos_trivial) simp_all
    with u assms b show False by simp
  qed
  have "sint x mod 2 ^ 32 = (sint x + 2 ^ 32) mod 2 ^ 32"
    by (rule mod_add_self2 [symmetric])
  also have "\<dots> = sint x + 2 ^ 32"
    using b neg by (intro mod_pos_pos_trivial) simp_all
  finally show ?thesis
    using u by simp
qed

lemma scast_negative:
  assumes "2 ^ 31 \<le> uint (x :: 32 word)"
  shows "uint (scast x :: 64 word) = 2 ^ 64 - 2 ^ 32 + uint x"
proof -
  have u: "uint x < 2 ^ 32"
    using uint_lt2p [of x] by simp
  have s: "sint x = uint x - 2 ^ 32"
    using assms by (rule sint_negative)
  have "uint (scast x :: 64 word) = take_bit 64 (sint x)"
    by (simp only: scast_eq uint_word_of_int_eq) (simp?)
  also have "\<dots> = (uint x - 2 ^ 32) mod 2 ^ 64"
    by (simp only: s take_bit_eq_mod)
  also have "\<dots> = (uint x - 2 ^ 32 + 2 ^ 64) mod 2 ^ 64"
    by (rule mod_add_self2 [symmetric])
  also have "\<dots> = uint x - 2 ^ 32 + 2 ^ 64"
    using u assms by (intro mod_pos_pos_trivial) simp_all
  finally show ?thesis by simp
qed

text \<open>
  Whatever the weights are: \<open>n\<close> simple selectors of a specificity \<open>w\<close> with
  \<open>2 ^ 31 \<le> n * w < 2 ^ 32\<close> make a compound selector whose specificity is
  \<open>2 ^ 64 - 2 ^ 32 + n * w\<close>, and the sum of their specificities is \<open>n * w\<close>. For
  every \<open>w\<close> from 1 to \<open>2 ^ 31 - 1\<close> there is such an \<open>n\<close>.
\<close>

lemma Compound_specificity_wraps:
  assumes "2 ^ 31 \<le> n * unat (Simple_specificity K s)"
    and "n * unat (Simple_specificity K s) < 2 ^ 32"
  shows "unat (Compound_specificity K
           (foldl Compound_push (new_Compound_Selector h0) (replicate n (Some s)))) =
         2 ^ 64 - 2 ^ 32 + n * unat (Simple_specificity K s)"
    and "unat (sum_list (map (Simple_specificity K) (replicate n s))) =
         n * unat (Simple_specificity K s)"
proof -
  let ?w = "Simple_specificity K s"
  let ?x = "of_nat n * ucast ?w :: 32 word"
  have c: "unat (ucast ?w :: 32 word) = unat ?w mod 2 ^ 32"
    by (simp only: unsigned_ucast_eq take_bit_eq_mod) simp
  have "unat ?x = (unat (of_nat n :: 32 word) * unat (ucast ?w :: 32 word)) mod 2 ^ 32"
    by (simp only: unat_word_ariths) simp
  also have "\<dots> = ((n mod 2 ^ 32) * (unat ?w mod 2 ^ 32)) mod 2 ^ 32"
    by (simp only: c unat_of_nat) simp
  also have "\<dots> = (n * unat ?w) mod 2 ^ 32"
    by (rule mod_mult_eq)
  finally have "unat ?x = (n * unat ?w) mod 2 ^ 32" .
  also have "\<dots> = n * unat ?w"
    using assms(2) by simp
  finally have x: "unat ?x = n * unat ?w" .
  then have "uint ?x = int (n * unat ?w)"
    by (simp only: uint_nat)
  moreover have "(2 ^ 31 :: int) \<le> int (n * unat ?w)"
    using assms(1) by (metis numeral_power_le_of_nat_cancel_iff)
  ultimately have "2 ^ 31 \<le> uint ?x"
    by simp
  then have "uint (scast ?x :: 64 word) = 2 ^ 64 - 2 ^ 32 + uint ?x"
    by (rule scast_negative)
  then have "int (unat (scast ?x :: 64 word)) = 2 ^ 64 - 2 ^ 32 + int (unat ?x)"
    by (simp only: uint_nat)
  also have "\<dots> = int (2 ^ 64 - 2 ^ 32 + n * unat ?w)"
    unfolding x by simp
  finally have "unat (scast ?x :: 64 word) = 2 ^ 64 - 2 ^ 32 + n * unat ?w"
    by (simp only: of_nat_eq_iff)
  then show "unat (Compound_specificity K
           (foldl Compound_push (new_Compound_Selector h0) (replicate n (Some s)))) =
         2 ^ 64 - 2 ^ 32 + n * unat ?w"
    by (simp only: Compound_specificity_replicate int_to_ulong_def)
  have "unat (of_nat n * ?w) = (unat (of_nat n :: 64 word) * unat ?w) mod 2 ^ 64"
    by (simp only: unat_word_ariths) simp
  also have "\<dots> = ((n mod 2 ^ 64) * unat ?w) mod 2 ^ 64"
    by (simp only: unat_of_nat) simp
  also have "\<dots> = (n * unat ?w) mod 2 ^ 64"
    by (rule mod_mult_left_eq)
  finally have "unat (of_nat n * ?w) = (n * unat ?w) mod 2 ^ 64" .
  also have "\<dots> = n * unat ?w"
    using assms(2) by simp
  finally show "unat (sum_list (map (Simple_specificity K) (replicate n s))) = n * unat ?w"
    by (simp add: sum_list_replicate)
qed

text \<open>
  The id selector \<open>#a\<close> has the id weight, \<open>1 << 24\<close> in \<open>Constants_levels\<close>.
\<close>

lemma specificity_id_a:
  "Simple_specificity Constants_levels (new_Selector_Qualifier ''#a'') = 0x1000000"
  by (simp add: new_Selector_Qualifier_def new_Simple_Selector_def char_at_def
      Constants_levels_def)

text \<open>
  C8. The specificity of a selector list is the maximum over its alternatives
  (\<open>List_specificity_Max\<close>), and the sums of compound and complex selectors are the
  sums of the claim as long as they stay below \<open>2 ^ 31\<close>
  (\<open>Compound_specificity_no_overflow\<close>, \<open>Complex_specificity_no_overflow\<close>). Beyond,
  the \<open>int\<close> accumulator wraps and is sign-extended on return
  (\<open>Compound_specificity_wraps\<close>). With the id weight \<open>1 << 24\<close>, the compound selector
  of 128 id selectors has the specificity \<open>2 ^ 64 - 2 ^ 31\<close>, where the sum of the
  specificities of its simple selectors is \<open>2 ^ 31\<close>; the complex selector with a head
  and a tail of 64 id selectors each has the same value, where head plus tail is
  \<open>2 ^ 31\<close>.
\<close>

theorem specificity_int_accumulator_wraps:
  "Compound_specificity Constants_levels
     (foldl Compound_push (new_Compound_Selector 0)
        (replicate 128 (Some (new_Selector_Qualifier ''#a'')))) = 0xFFFFFFFF80000000 \<and>
   sum_list (map (Simple_specificity Constants_levels)
     (replicate 128 (new_Selector_Qualifier ''#a''))) = 0x80000000 \<and>
   Complex_specificity Constants_levels
     (new_Complex_Selector ANCESTOR_OF
        (Some (foldl Compound_push (new_Compound_Selector 0)
           (replicate 64 (Some (new_Selector_Qualifier ''#a'')))))
        (Some (new_Complex_Selector ANCESTOR_OF
           (Some (foldl Compound_push (new_Compound_Selector 0)
              (replicate 64 (Some (new_Selector_Qualifier ''#a'')))))
           None))) = 0xFFFFFFFF80000000 \<and>
   Compound_specificity Constants_levels
     (foldl Compound_push (new_Compound_Selector 0)
        (replicate 64 (Some (new_Selector_Qualifier ''#a'')))) +
   Complex_specificity Constants_levels
     (new_Complex_Selector ANCESTOR_OF
        (Some (foldl Compound_push (new_Compound_Selector 0)
           (replicate 64 (Some (new_Selector_Qualifier ''#a'')))))
        None) = 0x80000000"
proof -
  let ?h = "foldl Compound_push (new_Compound_Selector 0)
      (replicate 64 (Some (new_Selector_Qualifier ''#a'')))"
  let ?t = "new_Complex_Selector ANCESTOR_OF (Some ?h) None"
  have h: "Compound_specificity Constants_levels ?h = 0x40000000"
    by (simp add: Compound_specificity_replicate specificity_id_a int_to_ulong_def)
  have t: "Complex_specificity Constants_levels ?t = 0x40000000"
    unfolding new_Complex_Selector_def Let_def Complex_specificity.simps option.case h
    by (simp add: int_plus_ulong_eq int_to_ulong_def)
  have c: "Complex_specificity Constants_levels
      (new_Complex_Selector ANCESTOR_OF (Some ?h) (Some ?t)) = 0xFFFFFFFF80000000"
    unfolding new_Complex_Selector_def [of _ "Some ?h" "Some ?t"] Let_def
      Complex_specificity.simps option.case h t
    by (simp add: int_plus_ulong_eq int_to_ulong_def)
  have n: "Compound_specificity Constants_levels
     (foldl Compound_push (new_Compound_Selector 0)
        (replicate 128 (Some (new_Selector_Qualifier ''#a'')))) = 0xFFFFFFFF80000000"
    by (simp add: Compound_specificity_replicate specificity_id_a int_to_ulong_def)
  have s: "sum_list (map (Simple_specificity Constants_levels)
     (replicate 128 (new_Selector_Qualifier ''#a''))) = 0x80000000"
    by (simp add: specificity_id_a sum_list_replicate)
  from n s c h t show ?thesis
    by simp
qed


section \<open>Prepending an output buffer to a source map\<close>

lemma prepend_check_None_iff:
  "prepend_check sz ms = None \<longleftrightarrow>
     (\<forall>mapping \<in> set ms.
        \<not> (line (generated_position mapping) > line sz \<or>
           (line (generated_position mapping) = line sz \<and>
            column (generated_position mapping) > column sz)))"
  by (induction ms) auto

lemma prepend_mapping_zero:
  "line offset = 0 \<Longrightarrow> column offset = 0 \<Longrightarrow> prepend_mapping offset mapping = mapping"
  by (simp add: prepend_mapping_def Let_def)

lemma mappings_prepend_Offset:
  "mappings (prepend_Offset offset m) = map (prepend_mapping offset) (mappings m)"
proof (cases "line offset \<noteq> 0 \<or> column offset \<noteq> 0")
  case True
  then show ?thesis by (auto simp: prepend_Offset_def Let_def)
next
  case False
  then have "map (prepend_mapping offset) (mappings m) = map (\<lambda>x. x) (mappings m)"
    by (intro map_cong refl) (simp add: prepend_mapping_zero)
  with False show ?thesis by (simp add: prepend_Offset_def Let_def)
qed

lemma prepend_mapping_fields:
  "original_position (prepend_mapping offset mapping) = original_position mapping"
  "line (generated_position (prepend_mapping offset mapping)) =
     line (generated_position mapping) + line offset"
  "column (generated_position (prepend_mapping offset mapping)) =
     (if line (generated_position mapping) = 0
      then column (generated_position mapping) + column offset
      else column (generated_position mapping))"
  "file (generated_position (prepend_mapping offset mapping)) = file (generated_position mapping)"
  by (simp_all add: prepend_mapping_def Let_def)

text \<open>
  C5. For every source map \<open>M\<close> and output buffer \<open>B\<close>, \<open>prepend(B)\<close> throws exactly
  when some mapping of \<open>B\<close> lies beyond the current position of \<open>B\<close>'s own source
  map (a greater generated line, or the same line and a greater column), and then
  leaves \<open>M\<close> as it was. Otherwise the mappings of \<open>M\<close> become the mappings of \<open>B\<close>
  followed by the old mappings of \<open>M\<close>, each shifted by the offset of \<open>B\<close>'s text:
  the line delta is added to the generated line of every mapping, the column delta to
  the generated column of the mappings on generated line 0 only, and the original
  position and the file stay.
\<close>

theorem prepend_OutputBuffer:
  "(snd (prepend Offset_of_string out m) \<noteq> None \<longleftrightarrow>
      (\<exists>mapping \<in> set (mappings (smap out)).
         line (generated_position mapping) > line (current_position (smap out)) \<or>
         (line (generated_position mapping) = line (current_position (smap out)) \<and>
          column (generated_position mapping) > column (current_position (smap out))))) \<and>
   (snd (prepend Offset_of_string out m) \<noteq> None \<longrightarrow>
      fst (prepend Offset_of_string out m) = m) \<and>
   (snd (prepend Offset_of_string out m) = None \<longrightarrow>
      mappings (fst (prepend Offset_of_string out m)) =
        mappings (smap out) @
        map (prepend_mapping (Offset_of_string (buffer out))) (mappings m)) \<and>
   original_position (prepend_mapping offset mapping) = original_position mapping \<and>
   file (generated_position (prepend_mapping offset mapping)) =
     file (generated_position mapping) \<and>
   line (generated_position (prepend_mapping offset mapping)) =
     line (generated_position mapping) + line offset \<and>
   column (generated_position (prepend_mapping offset mapping)) =
     (if line (generated_position mapping) = 0
      then column (generated_position mapping) + column offset
      else column (generated_position mapping))"
proof -
  let ?sz = "Offset_of_Position (current_position (smap out))"
  let ?B = "mappings (smap out)"
  show ?thesis
  proof (cases "prepend_check ?sz ?B")
    case None
    then have ok: "\<forall>mapping \<in> set ?B.
        \<not> (line (generated_position mapping) > line ?sz \<or>
           (line (generated_position mapping) = line ?sz \<and>
            column (generated_position mapping) > column ?sz))"
      by (simp only: prepend_check_None_iff)
    have r: "prepend Offset_of_string out m =
        ((prepend_Offset (Offset_of_string (buffer out)) m)
           \<lparr>mappings := ?B @ map (prepend_mapping (Offset_of_string (buffer out))) (mappings m)\<rparr>,
         None)"
      using None
      by (simp add: prepend_def Let_def VECTOR_UNSHIFT_def mappings_prepend_Offset)
    show ?thesis
      using ok by (simp add: r prepend_mapping_fields Offset_of_Position_def)
  next
    case (Some e)
    then have "\<not> (\<forall>mapping \<in> set ?B.
        \<not> (line (generated_position mapping) > line ?sz \<or>
           (line (generated_position mapping) = line ?sz \<and>
            column (generated_position mapping) > column ?sz)))"
      by (simp only: prepend_check_None_iff [symmetric]) simp
    moreover have r: "prepend Offset_of_string out m = (m, Some e)"
      using Some by (simp add: prepend_def Let_def)
    ultimately show ?thesis
      by (simp add: r prepend_mapping_fields Offset_of_Position_def)
  qed
qed

text \<open>
  A source map with mappings at generated \<open>(0, 2)\<close> and \<open>(1, 5)\<close>, and a one-line
  buffer \<open>ab\<close> whose source map stands at \<open>(0, 2)\<close>: with a mapping at \<open>(0, 0)\<close> the
  call succeeds, with a mapping at \<open>(0, 3)\<close> it throws.
\<close>

theorem prepend_OutputBuffer_witness:
  "prepend (\<lambda>s. \<lparr>line = 0, column = of_nat (length s)\<rparr>)
     \<lparr>buffer = ''ab'',
      smap = \<lparr>source_index = [], mappings =
          [\<lparr>original_position = \<lparr>line = 7, column = 1, file = 0\<rparr>,
            generated_position = \<lparr>line = 0, column = 0, file = 0\<rparr>\<rparr>],
        current_position = \<lparr>line = 0, column = 2, file = 0\<rparr>, SourceMap_file = ''stdin''\<rparr>\<rparr>
     \<lparr>source_index = [], mappings =
          [\<lparr>original_position = \<lparr>line = 3, column = 0, file = 0\<rparr>,
            generated_position = \<lparr>line = 0, column = 2, file = 0\<rparr>\<rparr>,
           \<lparr>original_position = \<lparr>line = 4, column = 0, file = 0\<rparr>,
            generated_position = \<lparr>line = 1, column = 5, file = 0\<rparr>\<rparr>],
        current_position = \<lparr>line = 1, column = 9, file = 0\<rparr>, SourceMap_file = ''stdin''\<rparr>
   = (\<lparr>source_index = [], mappings =
          [\<lparr>original_position = \<lparr>line = 7, column = 1, file = 0\<rparr>,
            generated_position = \<lparr>line = 0, column = 0, file = 0\<rparr>\<rparr>,
           \<lparr>original_position = \<lparr>line = 3, column = 0, file = 0\<rparr>,
            generated_position = \<lparr>line = 0, column = 4, file = 0\<rparr>\<rparr>,
           \<lparr>original_position = \<lparr>line = 4, column = 0, file = 0\<rparr>,
            generated_position = \<lparr>line = 1, column = 5, file = 0\<rparr>\<rparr>],
        current_position = \<lparr>line = 1, column = 9, file = 0\<rparr>, SourceMap_file = ''stdin''\<rparr>,
      None) \<and>
   prepend (\<lambda>s. \<lparr>line = 0, column = of_nat (length s)\<rparr>)
     \<lparr>buffer = ''ab'',
      smap = \<lparr>source_index = [], mappings =
          [\<lparr>original_position = \<lparr>line = 7, column = 1, file = 0\<rparr>,
            generated_position = \<lparr>line = 0, column = 3, file = 0\<rparr>\<rparr>],
        current_position = \<lparr>line = 0, column = 2, file = 0\<rparr>, SourceMap_file = ''stdin''\<rparr>\<rparr>
     \<lparr>source_index = [], mappings =
          [\<lparr>original_position = \<lparr>line = 3, column = 0, file = 0\<rparr>,
            generated_position = \<lparr>line = 0, column = 2, file = 0\<rparr>\<rparr>],
        current_position = \<lparr>line = 1, column = 9, file = 0\<rparr>, SourceMap_file = ''stdin''\<rparr>
   = (\<lparr>source_index = [], mappings =
          [\<lparr>original_position = \<lparr>line = 3, column = 0, file = 0\<rparr>,
            generated_position = \<lparr>line = 0, column = 2, file = 0\<rparr>\<rparr>],
        current_position = \<lparr>line = 1, column = 9, file = 0\<rparr>, SourceMap_file = ''stdin''\<rparr>,
      Some (runtime_error ''prepend sourcemap has illegal column''))"
  using prepend_OutputBuffer [of "\<lambda>s. \<lparr>line = 0, column = of_nat (length s)\<rparr>"
     "\<lparr>buffer = ''ab'',
      smap = \<lparr>source_index = [], mappings =
          [\<lparr>original_position = \<lparr>line = 7, column = 1, file = 0\<rparr>,
            generated_position = \<lparr>line = 0, column = 3, file = 0\<rparr>\<rparr>],
        current_position = \<lparr>line = 0, column = 2, file = 0\<rparr>, SourceMap_file = ''stdin''\<rparr>\<rparr>"
     "\<lparr>source_index = [], mappings =
          [\<lparr>original_position = \<lparr>line = 3, column = 0, file = 0\<rparr>,
            generated_position = \<lparr>line = 0, column = 2, file = 0\<rparr>\<rparr>],
        current_position = \<lparr>line = 1, column = 9, file = 0\<rparr>, SourceMap_file = ''stdin''\<rparr>"
     "\<lparr>line = 0, column = 2\<rparr>"
     "\<lparr>original_position = \<lparr>line = 3, column = 0, file = 0\<rparr>,
            generated_position = \<lparr>line = 0, column = 2, file = 0\<rparr>\<rparr>"]
  by (simp add: prepend_def Let_def Offset_of_Position_def prepend_Offset_def
      prepend_mapping_def VECTOR_UNSHIFT_def)


section \<open>naiveTrim\<close>

lemma naiveTrim_copy_eq:
  "i < length res \<Longrightarrow> naiveTrim_copy res i acc = acc @ rev (take (Suc i) res)"
proof (induction i arbitrary: acc)
  case 0
  then show ?case by (cases res) simp_all
next
  case (Suc i)
  then show ?case by (simp add: take_Suc_conv_app_nth)
qed

lemma naiveTrim_copy_rev:
  "(if res = [] then [] else naiveTrim_copy res (length res - 1) []) = rev res"
  by (cases "res = []") (simp_all add: naiveTrim_copy_eq)

lemma kept_selectors_simps [simp]:
  "kept_selectors [] = []"
  "kept_selectors (res @ res') = kept_selectors res @ kept_selectors res'"
  "kept_selectors [n] = (if isSelector n then (case mpSelector n of None \<Rightarrow> [] | Some s \<Rightarrow> [s]) else [])"
  by (simp_all add: kept_selectors_def)

lemma naiveTrim_loop_append:
  "naiveTrim_loop lt (zs @ ws) (kept_selectors res) res =
     (case naiveTrim_loop lt zs (kept_selectors res) res of
        None \<Rightarrow> None
      | Some res' \<Rightarrow> naiveTrim_loop lt ws (kept_selectors res') res')"
proof (induction zs arbitrary: res)
  case Nil
  then show ?case by simp
next
  case (Cons z zs)
  show ?case
  proof (cases "isSelector z")
    case False
    then have "kept_selectors (res @ [z]) = kept_selectors res" by simp
    with Cons [of "res @ [z]"] False show ?thesis by simp
  next
    case True
    show ?thesis
    proof (cases "mpSelector z")
      case None
      with True show ?thesis by simp
    next
      case (Some s)
      show ?thesis
      proof (cases "set_find lt (kept_selectors res) s")
        case found: True
        with True Some Cons [of res] show ?thesis by simp
      next
        case notfound: False
        then have "set_insert lt (kept_selectors res) s = kept_selectors (res @ [z])"
          using True Some by (simp add: set_insert_def)
        with True Some notfound Cons [of "res @ [z]"] show ?thesis by simp
      qed
    qed
  qed
qed

lemma set_find_kept_selectors:
  "set_find lt (kept_selectors res) s \<longleftrightarrow>
     list_ex (\<lambda>k. isSelector k \<and>
        (case (Some s, mpSelector k) of (Some s, Some s') \<Rightarrow> equivalent lt s s' | _ \<Rightarrow> False)) res"
  by (induction res) (auto simp: set_find_def kept_selectors_def split: option.splits)

lemma naiveTrim_loop_kept:
  assumes "\<forall>n \<in> set nodes. isSelector n \<longrightarrow> mpSelector n \<noteq> None"
  shows "naiveTrim_loop lt (rev nodes) [] [] = Some (rev (naiveTrim_kept lt nodes))"
  using assms
proof (induction nodes)
  case Nil
  then show ?case by simp
next
  case (Cons n nodes)
  let ?res = "rev (naiveTrim_kept lt nodes)"
  have IH: "naiveTrim_loop lt (rev nodes) (kept_selectors []) [] = Some ?res"
    using Cons by simp
  have "naiveTrim_loop lt (rev (n # nodes)) [] [] =
        naiveTrim_loop lt (rev nodes @ [n]) (kept_selectors []) []"
    by simp
  also have "\<dots> = naiveTrim_loop lt [n] (kept_selectors ?res) ?res"
    by (simp only: naiveTrim_loop_append IH option.case)
  also have "\<dots> = Some (rev (naiveTrim_kept lt (n # nodes)))"
  proof (cases "isSelector n")
    case False
    then show ?thesis by simp
  next
    case True
    with Cons.prems obtain s where s: "mpSelector n = Some s" by auto
    have "set_find lt (kept_selectors ?res) s \<longleftrightarrow>
       list_ex (\<lambda>k. isSelector k \<and>
        (case (mpSelector n, mpSelector k) of (Some s, Some s') \<Rightarrow> equivalent lt s s' | _ \<Rightarrow> False))
        (naiveTrim_kept lt nodes)"
      by (simp add: set_find_kept_selectors s list_ex_iff)
    with True s show ?thesis by simp
  qed
  finally show ?case .
qed

lemma subseq_naiveTrim_kept: "subseq (naiveTrim_kept lt nodes) nodes"
  by (induction nodes) auto

lemma filter_naiveTrim_kept:
  "filter (\<lambda>n. \<not> isSelector n) (naiveTrim_kept lt nodes) = filter (\<lambda>n. \<not> isSelector n) nodes"
  by (induction nodes) auto

lemma representative_naiveTrim_kept:
  assumes "\<forall>s. \<not> lt s s" "n \<in> set nodes" "isSelector n" "mpSelector n = Some s"
  shows "\<exists>k \<in> set (naiveTrim_kept lt nodes).
           isSelector k \<and> (\<exists>s'. mpSelector k = Some s' \<and> equivalent lt s s')"
  using assms(2-)
proof (induction nodes)
  case Nil
  then show ?case by simp
next
  case (Cons m nodes)
  show ?case
  proof (cases "n = m")
    case False
    with Cons show ?thesis by auto
  next
    case True
    have refl: "equivalent lt s s"
      using assms(1) by (simp add: equivalent_def)
    show ?thesis
    proof (cases "list_ex (\<lambda>k. isSelector k \<and>
           (case (mpSelector m, mpSelector k) of
              (Some s, Some s') \<Rightarrow> equivalent lt s s' | _ \<Rightarrow> False))
           (naiveTrim_kept lt nodes)")
      case found: True
      then obtain k where "k \<in> set (naiveTrim_kept lt nodes)" "isSelector k"
        "case (mpSelector m, mpSelector k) of
              (Some s, Some s') \<Rightarrow> equivalent lt s s' | _ \<Rightarrow> False"
        by (auto simp: list_ex_iff)
      with True Cons.prems found show ?thesis
        by (auto split: option.splits)
    next
      case False
      with True Cons.prems refl show ?thesis by auto
    qed
  qed
qed

lemma distinct_naiveTrim_kept:
  "sorted_wrt (\<lambda>a b. \<not> (isSelector a \<and> isSelector b \<and>
      (case (mpSelector a, mpSelector b) of
         (Some s, Some s') \<Rightarrow> equivalent lt s s' | _ \<Rightarrow> False)))
     (naiveTrim_kept lt nodes)"
  by (induction nodes) (auto simp: list_ex_iff)

text \<open>
  C4, as the code has it. For every collection node whose selector nodes have a
  selector, and every comparison that is irreflexive, \<open>naiveTrim\<close> returns a collection
  of the nodes that \<open>naiveTrim_kept\<close> keeps: walking back-to-front, a selector node is
  skipped when its selector is equivalent, under the comparison of the set, to the
  selector of a node already kept, and every other node is kept. The kept nodes are in
  their original relative order; every node that is not a selector is kept; every
  selector of the input has an equivalent selector among the kept nodes; no two kept
  selectors are equivalent. The sources of the selectors play no part.
\<close>

theorem naiveTrim_keeps:
  assumes "mpCollection seqses = Some nodes"
    and "\<forall>n \<in> set nodes. isSelector n \<longrightarrow> mpSelector n \<noteq> None"
    and "\<forall>s. \<not> lt s s"
  shows "naiveTrim lt seqses = Some (createCollection_of (naiveTrim_kept lt nodes)) \<and>
    subseq (naiveTrim_kept lt nodes) nodes \<and>
    filter (\<lambda>n. \<not> isSelector n) (naiveTrim_kept lt nodes) = filter (\<lambda>n. \<not> isSelector n) nodes \<and>
    (\<forall>n \<in> set nodes. isSelector n \<longrightarrow>
       (\<exists>k \<in> set (naiveTrim_kept lt nodes). isSelector k \<and>
          (\<exists>s s'. mpSelector n = Some s \<and> mpSelector k = Some s' \<and> equivalent lt s s'))) \<and>
    sorted_wrt (\<lambda>a b. \<not> (isSelector a \<and> isSelector b \<and>
      (case (mpSelector a, mpSelector b) of
         (Some s, Some s') \<Rightarrow> equivalent lt s s' | _ \<Rightarrow> False)))
     (naiveTrim_kept lt nodes)"
proof -
  have 1: "naiveTrim lt seqses = Some (createCollection_of (naiveTrim_kept lt nodes))"
    unfolding naiveTrim_def assms(1) option.case naiveTrim_loop_kept [OF assms(2)]
      naiveTrim_copy_rev
    by simp
  have 4: "\<exists>k \<in> set (naiveTrim_kept lt nodes). isSelector k \<and>
          (\<exists>s s'. mpSelector n = Some s \<and> mpSelector k = Some s' \<and> equivalent lt s s')"
    if n: "n \<in> set nodes" "isSelector n" for n
  proof -
    from assms(2) n obtain s where s: "mpSelector n = Some s" by auto
    from representative_naiveTrim_kept [of lt n nodes s] assms(3) n s show ?thesis by blast
  qed
  from 1 subseq_naiveTrim_kept [of lt nodes] filter_naiveTrim_kept [of lt nodes] 4
    distinct_naiveTrim_kept [of lt nodes]
  show ?thesis by blast
qed

lemma less_text_irrefl: "\<not> less_text s s"
  by (simp add: less_text_def)

lemmas node_defs = createSelector_def new_Complex_Selector_def Compound_push_def
  new_Compound_Selector_def Compound_adjust_after_pushing_def new_Selector_def
  new_Selector_Qualifier_def new_Simple_Selector_def createCombinator_def
  createCollection_of_def isSelector_def

text \<open>
  C4 as stated fails: the selectors \<open>.a\<close> and \<open>.b\<close> have no sources, so the source
  set of \<open>.a\<close> is subsumed by the source set of \<open>.b\<close>, which is kept first; the spec's
  rule skips \<open>.a\<close>, and \<open>naiveTrim\<close> keeps both.
\<close>

theorem naiveTrim_not_by_sources:
  "naiveTrim less_text (createCollection_of
     [createSelector (new_Complex_Selector ANCESTOR_OF
        (Some (Compound_push (new_Compound_Selector 0) (Some (new_Selector_Qualifier ''.a'')))) None),
      createSelector (new_Complex_Selector ANCESTOR_OF
        (Some (Compound_push (new_Compound_Selector 0) (Some (new_Selector_Qualifier ''.b'')))) None)])
   = Some (createCollection_of
     [createSelector (new_Complex_Selector ANCESTOR_OF
        (Some (Compound_push (new_Compound_Selector 0) (Some (new_Selector_Qualifier ''.a'')))) None),
      createSelector (new_Complex_Selector ANCESTOR_OF
        (Some (Compound_push (new_Compound_Selector 0) (Some (new_Selector_Qualifier ''.b'')))) None)]) \<and>
   naiveTrim_spec
     [createSelector (new_Complex_Selector ANCESTOR_OF
        (Some (Compound_push (new_Compound_Selector 0) (Some (new_Selector_Qualifier ''.a'')))) None),
      createSelector (new_Complex_Selector ANCESTOR_OF
        (Some (Compound_push (new_Compound_Selector 0) (Some (new_Selector_Qualifier ''.b'')))) None)]
   = [createSelector (new_Complex_Selector ANCESTOR_OF
        (Some (Compound_push (new_Compound_Selector 0) (Some (new_Selector_Qualifier ''.b'')))) None)]"
  by (simp add: naiveTrim_def node_defs set_find_def set_insert_def equivalent_def
      less_text_def ns_name_def less_char_def Node_sources_def)

text \<open>
  The collection \<open>.a > .a .b\<close> under the comparison of the texts: the first \<open>.a\<close>
  goes, the combinator and the last two selectors stay.
\<close>

theorem naiveTrim_keeps_witness:
  "(\<forall>s. \<not> less_text s s) \<and>
   naiveTrim less_text (createCollection_of
     [createSelector (new_Complex_Selector ANCESTOR_OF
        (Some (Compound_push (new_Compound_Selector 0) (Some (new_Selector_Qualifier ''.a'')))) None),
      createCombinator PARENT_OF,
      createSelector (new_Complex_Selector ANCESTOR_OF
        (Some (Compound_push (new_Compound_Selector 0) (Some (new_Selector_Qualifier ''.a'')))) None),
      createSelector (new_Complex_Selector ANCESTOR_OF
        (Some (Compound_push (new_Compound_Selector 0) (Some (new_Selector_Qualifier ''.b'')))) None)])
   = Some (createCollection_of
     [createCombinator PARENT_OF,
      createSelector (new_Complex_Selector ANCESTOR_OF
        (Some (Compound_push (new_Compound_Selector 0) (Some (new_Selector_Qualifier ''.a'')))) None),
      createSelector (new_Complex_Selector ANCESTOR_OF
        (Some (Compound_push (new_Compound_Selector 0) (Some (new_Selector_Qualifier ''.b'')))) None)])"
proof -
  let ?nodes = "[createSelector (new_Complex_Selector ANCESTOR_OF
        (Some (Compound_push (new_Compound_Selector 0) (Some (new_Selector_Qualifier ''.a'')))) None),
      createCombinator PARENT_OF,
      createSelector (new_Complex_Selector ANCESTOR_OF
        (Some (Compound_push (new_Compound_Selector 0) (Some (new_Selector_Qualifier ''.a'')))) None),
      createSelector (new_Complex_Selector ANCESTOR_OF
        (Some (Compound_push (new_Compound_Selector 0) (Some (new_Selector_Qualifier ''.b'')))) None)]"
  have c: "mpCollection (createCollection_of ?nodes) = Some ?nodes"
    by (simp add: createCollection_of_def)
  have s: "\<forall>n \<in> set ?nodes. isSelector n \<longrightarrow> mpSelector n \<noteq> None"
    by (simp add: node_defs)
  have i: "\<forall>s. \<not> less_text s s"
    by (simp add: less_text_irrefl)
  have k: "naiveTrim_kept less_text ?nodes =
     [createCombinator PARENT_OF,
      createSelector (new_Complex_Selector ANCESTOR_OF
        (Some (Compound_push (new_Compound_Selector 0) (Some (new_Selector_Qualifier ''.a'')))) None),
      createSelector (new_Complex_Selector ANCESTOR_OF
        (Some (Compound_push (new_Compound_Selector 0) (Some (new_Selector_Qualifier ''.b'')))) None)]"
    by (simp add: node_defs equivalent_def less_text_def ns_name_def less_char_def)
  show ?thesis
    using naiveTrim_keeps [of "createCollection_of ?nodes" ?nodes less_text] c s i
    unfolding k by blast
qed


section \<open>Serialising and decoding the mappings\<close>

declare encode_vlq.simps [simp del]

declare decode_mappings_from.simps [simp del]

lemma length_CHARACTERS: "length CHARACTERS = 64"
  by (simp add: CHARACTERS_def)

lemma distinct_CHARACTERS: "distinct CHARACTERS"
  by (simp add: CHARACTERS_def)

lemma separator_not_in_CHARACTERS: "is_separator c \<Longrightarrow> c \<notin> set CHARACTERS"
  by (auto simp: is_separator_def CHARACTERS_def)

lemma index_of_nth: "distinct xs \<Longrightarrow> i < length xs \<Longrightarrow> index_of (xs ! i) xs = Some i"
proof (induction xs arbitrary: i)
  case Nil
  then show ?case by simp
next
  case (Cons x xs)
  show ?case
  proof (cases i)
    case 0
    then show ?thesis by simp
  next
    case (Suc j)
    with Cons.prems have "xs ! j \<noteq> x" "index_of (xs ! j) xs = Some j"
      using Cons.IH [of j] by auto
    with Suc show ?thesis by simp
  qed
qed

lemma base64_decode_encode: "digit < 64 \<Longrightarrow> base64_decode (base64_encode digit) = Some digit"
  by (simp add: base64_decode_def base64_encode_def index_of_nth distinct_CHARACTERS
      length_CHARACTERS)

lemma base64_encode_in_CHARACTERS: "digit < 64 \<Longrightarrow> base64_encode digit \<in> set CHARACTERS"
  by (simp add: base64_encode_def length_CHARACTERS)

lemma decode_vlq_encode_vlq: "decode_vlq (encode_vlq vlq @ rest) = Some (vlq, rest)"
proof (induction vlq rule: encode_vlq.induct)
  case (1 vlq)
  show ?case
  proof (cases "vlq div 32 > 0")
    case True
    have d: "base64_decode (base64_encode (vlq mod 32 + 32)) = Some (vlq mod 32 + 32)"
      by (rule base64_decode_encode) simp
    have "decode_vlq (encode_vlq (vlq div 32) @ rest) = Some (vlq div 32, rest)"
      using 1 True by simp
    with True d show ?thesis
      by (subst encode_vlq.simps) simp
  next
    case False
    have d: "base64_decode (base64_encode (vlq mod 32)) = Some (vlq mod 32)"
      by (rule base64_decode_encode) simp
    from False have lt: "vlq < 32" by simp
    then have "vlq mod 32 = vlq" by simp
    with False d lt show ?thesis
      by (subst encode_vlq.simps) simp
  qed
qed

lemma from_vlq_signed_to_vlq_signed: "from_vlq_signed (to_vlq_signed number) = number"
  by (simp add: from_vlq_signed_def to_vlq_signed_def)

lemma decode_encode: "decode (encode number @ rest) = Some (number, rest)"
  by (simp add: decode_def encode_def decode_vlq_encode_vlq from_vlq_signed_to_vlq_signed)

lemma decode4_encode:
  "decode4 (encode a @ encode b @ encode c @ encode d @ rest) = Some ((a, b, c, d), rest)"
  by (simp add: decode4_def decode_encode)

lemma encode_vlq_hd: "encode_vlq vlq \<noteq> [] \<and> hd (encode_vlq vlq) \<in> set CHARACTERS"
  by (subst (1 2) encode_vlq.simps) (simp add: base64_encode_in_CHARACTERS)

lemma encode_not_separator: "encode number = c # cs \<Longrightarrow> \<not> is_separator c"
  using encode_vlq_hd [of "to_vlq_signed number"] separator_not_in_CHARACTERS [of c]
  by (auto simp: encode_def)

lemma encode_not_Nil: "encode number \<noteq> []"
  using encode_vlq_hd [of "to_vlq_signed number"] by (simp add: encode_def)

lemma int_difference_small:
  assumes "unat a < 2 ^ 31" "unat b < 2 ^ 31"
  shows "int_difference a b = uint a - uint b"
proof -
  have a: "sint (ucast a :: 32 word) = int (unat a)" and b: "sint (ucast b :: 32 word) = int (unat b)"
    using assms by (simp_all only: sint_ucast_small)
  then have "0 \<le> sint (ucast a :: 32 word)" "0 \<le> sint (ucast b :: 32 word)"
    by simp_all
  then have "sint ((ucast a :: 32 word) - ucast b) = sint (ucast a :: 32 word) - sint (ucast b :: 32 word)"
    by (rule sint_minus_small)
  with a b show ?thesis
    by (simp add: int_difference_def static_cast_int_def)
qed

lemma serialize_step_eq:
  "serialize_step mapping i st =
     \<lparr>result = result st @ separators mapping i st @ encoded_entry mapping st,
      previous_generated_line =
        (if line (generated_position mapping) > previous_generated_line st
         then line (generated_position mapping) else previous_generated_line st),
      previous_generated_column = column (generated_position mapping),
      previous_original_line = line (original_position mapping),
      previous_original_column = column (original_position mapping),
      previous_original_file = file (original_position mapping)\<rparr>"
  by (cases st) (simp add: serialize_step_def Let_def separators_def encoded_entry_def)

lemma result_serialize_loop:
  "result (serialize_loop ms i st) = result st @ loop_output ms i st"
proof (induction ms arbitrary: i st)
  case Nil
  then show ?case by simp
next
  case (Cons mapping ms)
  have "result (serialize_step mapping i st) =
        result st @ separators mapping i st @ encoded_entry mapping st"
    by (subst serialize_step_eq) simp
  with Cons [of "i + 1" "serialize_step mapping i st"] show ?case by simp
qed

lemma entry_Cons:
  obtains c cs where "encoded_entry mapping st = c # cs" "\<not> is_separator c"
proof -
  let ?a = "int_difference (column (generated_position mapping))
       (if line (generated_position mapping) \<noteq> previous_generated_line st then 0
        else previous_generated_column st)"
  obtain c cs where e: "encode ?a = c # cs"
    using encode_not_Nil [of ?a] by (cases "encode ?a") auto
  then have "\<not> is_separator c"
    by (rule encode_not_separator)
  moreover from e have "\<exists>cs'. encoded_entry mapping st = c # cs'"
    by (simp add: encoded_entry_def)
  ultimately show ?thesis
    using that by blast
qed

lemma decode_semicolons:
  "decode_mappings_from l (pc, pf, pl, pcl) (replicate (Suc k) CHR '';'' @ s) =
   decode_mappings_from (l + 1 + int k) (0, pf, pl, pcl) s"
proof (induction k arbitrary: l pc)
  case 0
  show ?case by (simp add: decode_mappings_from.simps)
next
  case (Suc k)
  have "decode_mappings_from l (pc, pf, pl, pcl) (replicate (Suc (Suc k)) CHR '';'' @ s) =
        decode_mappings_from (l + 1) (0, pf, pl, pcl) (replicate (Suc k) CHR '';'' @ s)"
    by (simp add: decode_mappings_from.simps)
  also have "\<dots> = decode_mappings_from (l + 1 + 1 + int k) (0, pf, pl, pcl) s"
    by (rule Suc)
  finally show ?case by (simp add: add.assoc)
qed

lemma decode_comma:
  assumes "\<not> is_separator c"
  shows "decode_mappings_from l p (CHR '','' # c # cs) = decode_mappings_from l p (c # cs)"
  using assms by (subst decode_mappings_from.simps) simp

lemma decode_entry:
  assumes "rest = [] \<or> is_separator (hd rest)"
  shows "decode_mappings_from l (pc, pf, pl, pcl)
           (encode a @ encode b @ encode c @ encode d @ rest) =
         (case decode_mappings_from l (pc + a, pf + b, pl + c, pcl + d) rest of
            None \<Rightarrow> None
          | Some ts \<Rightarrow> Some (((l, pc + a), pf + b, (pl + c, pcl + d)) # ts))"
proof -
  obtain x xs where e: "encode a = x # xs"
    using encode_not_Nil [of a] by (cases "encode a") auto
  then have x: "\<not> is_separator x"
    by (rule encode_not_separator)
  then have x': "x \<noteq> CHR '';''" "x \<noteq> CHR '',''"
    by (auto simp: is_separator_def)
  let ?s = "xs @ encode b @ encode c @ encode d @ rest"
  have d4: "decode4 (x # ?s) = Some ((a, b, c, d), rest)"
    using decode4_encode [of a b c d rest] e by simp
  have len: "length rest < length (x # ?s)"
    by simp
  have "decode_mappings_from l (pc, pf, pl, pcl) (x # ?s) =
         (case decode_mappings_from l (pc + a, pf + b, pl + c, pcl + d) rest of
            None \<Rightarrow> None
          | Some ts \<Rightarrow> Some (((l, pc + a), pf + b, (pl + c, pcl + d)) # ts))"
    using x' assms len
    by (subst decode_mappings_from.simps) (simp only: d4 option.case prod.case if_False if_True
        simp_thms)
  with e show ?thesis by simp
qed

lemma loop_output_separator:
  assumes "0 < i" "previous_generated_line st \<le> line (generated_position mapping)"
  shows "is_separator (hd (loop_output (mapping # ms) i st))"
proof (cases "line (generated_position mapping) = previous_generated_line st")
  case True
  with assms show ?thesis
    by (simp add: separators_def is_separator_def)
next
  case False
  with assms(2) have less: "previous_generated_line st < line (generated_position mapping)"
    by simp
  then have "unat (line (generated_position mapping) - previous_generated_line st) \<noteq> 0"
    by (simp add: unat_eq_zero)
  then obtain k where "unat (line (generated_position mapping) - previous_generated_line st) = Suc k"
    by (cases "unat (line (generated_position mapping) - previous_generated_line st)") auto
  with False less show ?thesis
    by (simp add: separators_def is_separator_def)
qed

lemma decode_loop_output:
  assumes "sorted (previous_generated_line st # map (\<lambda>m. line (generated_position m)) ms)"
    and "list_all mapping_fits_int ms"
    and "fits_int (previous_generated_column st)"
    and "fits_int (previous_original_file st)"
    and "fits_int (previous_original_line st)"
    and "fits_int (previous_original_column st)"
  shows "decode_mappings_from (uint (previous_generated_line st))
           (uint (previous_generated_column st), uint (previous_original_file st),
            uint (previous_original_line st), uint (previous_original_column st))
           (loop_output ms i st) = Some (map triple_of ms)"
  using assms
proof (induction ms arbitrary: i st)
  case Nil
  show ?case by (simp add: decode_mappings_from.simps)
next
  case (Cons mapping ms)
  let ?gl = "line (generated_position mapping)"
  let ?gc = "column (generated_position mapping)"
  let ?of = "file (original_position mapping)"
  let ?ol = "line (original_position mapping)"
  let ?oc = "column (original_position mapping)"
  let ?pgl = "previous_generated_line st"
  let ?st' = "serialize_step mapping i st"
  let ?rest = "loop_output ms (Suc i) ?st'"
  define pc where "pc = (if ?gl \<noteq> ?pgl then 0 else previous_generated_column st)"
  have le: "?pgl \<le> ?gl"
    using Cons.prems(1) by simp
  have fits: "fits_int ?gc" "fits_int ?of" "fits_int ?ol" "fits_int ?oc"
    using Cons.prems(2) by (simp_all add: mapping_fits_int_def)
  have fits_pc: "fits_int pc"
    using Cons.prems(3) by (simp add: fits_int_def pc_def)
  have entry_eq: "encoded_entry mapping st =
      encode (int_difference ?gc pc) @
      encode (int_difference ?of (previous_original_file st)) @
      encode (int_difference ?ol (previous_original_line st)) @
      encode (int_difference ?oc (previous_original_column st))"
    by (simp add: encoded_entry_def pc_def)
  have st': "previous_generated_line ?st' = ?gl" "previous_generated_column ?st' = ?gc"
    "previous_original_file ?st' = ?of" "previous_original_line ?st' = ?ol"
    "previous_original_column ?st' = ?oc"
    using le by (simp_all add: serialize_step_eq)
  have IH: "decode_mappings_from (uint ?gl) (uint ?gc, uint ?of, uint ?ol, uint ?oc) ?rest =
      Some (map triple_of ms)"
    using Cons.IH [of ?st' "Suc i"] Cons.prems(1,2) fits unfolding st' by simp
  have rest: "?rest = [] \<or> is_separator (hd ?rest)"
  proof (cases ms)
    case Nil
    then show ?thesis by simp
  next
    case (Cons m' ms')
    have "previous_generated_line ?st' \<le> line (generated_position m')"
      using Cons.prems(1) Cons unfolding st' by simp
    then have "is_separator (hd (loop_output (m' # ms') (Suc i) ?st'))"
      by (intro loop_output_separator) simp_all
    with Cons show ?thesis by simp
  qed
  have d: "int_difference ?gc pc = uint ?gc - uint pc"
    "int_difference ?of (previous_original_file st) = uint ?of - uint (previous_original_file st)"
    "int_difference ?ol (previous_original_line st) = uint ?ol - uint (previous_original_line st)"
    "int_difference ?oc (previous_original_column st) =
       uint ?oc - uint (previous_original_column st)"
    using fits fits_pc Cons.prems(4,5,6)
    by (simp_all only: fits_int_def int_difference_small)
  have entry: "decode_mappings_from l
        (uint pc, uint (previous_original_file st), uint (previous_original_line st),
         uint (previous_original_column st)) (encoded_entry mapping st @ ?rest) =
      Some (((l, uint ?gc), uint ?of, (uint ?ol, uint ?oc)) # map triple_of ms)"
    if "decode_mappings_from l (uint ?gc, uint ?of, uint ?ol, uint ?oc) ?rest =
      Some (map triple_of ms)" for l
  proof -
    have "decode_mappings_from l
        (uint pc, uint (previous_original_file st), uint (previous_original_line st),
         uint (previous_original_column st)) (encoded_entry mapping st @ ?rest) =
      (case decode_mappings_from l (uint ?gc, uint ?of, uint ?ol, uint ?oc) ?rest of
         None \<Rightarrow> None
       | Some ts \<Rightarrow> Some (((l, uint ?gc), uint ?of, (uint ?ol, uint ?oc)) # ts))"
      unfolding entry_eq append_assoc decode_entry [OF rest] d by (simp split: option.splits)
    then show ?thesis
      unfolding that by simp
  qed
  have triple: "triple_of mapping = ((uint ?gl, uint ?gc), uint ?of, (uint ?ol, uint ?oc))"
    by (simp add: triple_of_def)
  show ?case
  proof (cases "?gl = ?pgl")
    case True
    then have pc: "pc = previous_generated_column st" by (simp add: pc_def)
    have e: "decode_mappings_from (uint ?pgl)
        (uint (previous_generated_column st), uint (previous_original_file st),
         uint (previous_original_line st), uint (previous_original_column st))
        (encoded_entry mapping st @ ?rest) = Some (triple_of mapping # map triple_of ms)"
      using entry [of "uint ?gl"] IH True triple pc by simp
    show ?thesis
    proof (cases "0 < i")
      case False
      with True e show ?thesis
        by (simp add: separators_def)
    next
      case i: True
      obtain c cs where c: "encoded_entry mapping st = c # cs" "\<not> is_separator c"
        by (rule entry_Cons)
      have "loop_output (mapping # ms) i st = CHR '','' # c # (cs @ ?rest)"
        using True i c by (simp add: separators_def)
      then show ?thesis
        using e c by (simp add: decode_comma)
    qed
  next
    case False
    with le have less: "?pgl < ?gl" by simp
    then have "unat (?gl - ?pgl) \<noteq> 0"
      by (simp add: unat_eq_zero)
    then obtain k where k: "unat (?gl - ?pgl) = Suc k"
      by (cases "unat (?gl - ?pgl)") auto
    have "unat (?gl - ?pgl) = unat ?gl - unat ?pgl"
      using le by (simp add: unat_sub)
    moreover have "unat ?pgl \<le> unat ?gl"
      using le by (simp only: word_le_nat_alt)
    ultimately have "unat ?pgl + 1 + k = unat ?gl"
      using k by arith
    then have "int (unat ?pgl + 1 + k) = int (unat ?gl)"
      by (simp only:)
    then have line: "uint ?pgl + 1 + int k = uint ?gl"
      by simp
    have pc: "uint pc = 0"
      using False by (simp add: pc_def)
    have out: "loop_output (mapping # ms) i st =
        replicate (Suc k) CHR '';'' @ encoded_entry mapping st @ ?rest"
      using False less k by (simp add: separators_def)
    have "decode_mappings_from (uint ?gl)
        (0, uint (previous_original_file st), uint (previous_original_line st),
         uint (previous_original_column st)) (encoded_entry mapping st @ ?rest) =
      Some (triple_of mapping # map triple_of ms)"
      using entry [of "uint ?gl"] IH triple pc by simp
    then show ?thesis
      unfolding out by (simp only: decode_semicolons line list.map)
  qed
qed

text \<open>
  C1, as the code has it. For every sequence of mappings whose generated lines never
  decrease from one mapping to the next, and whose generated columns, source indices,
  original lines and original columns are below \<open>2 ^ 31\<close>, decoding the string of
  \<open>serialize_mappings\<close> yields exactly the triples (generated, source index, original)
  of the mappings, in order. The string is what the rounds of the loop append one after
  the other, and every round appends its separators (a \<open>;\<close> for every generated line
  advanced, or a comma within a line) and its entry of four Base64 VLQ deltas, in the
  order generated column, source index, original line, original column.
\<close>

theorem serialize_mappings_roundtrip:
  assumes "sorted (map (\<lambda>m. line (generated_position m)) (mappings sm))"
    and "list_all mapping_fits_int (mappings sm)"
  shows "decode_mappings (serialize_mappings sm) = Some (map triple_of (mappings sm)) \<and>
    serialize_mappings sm = loop_output (mappings sm) 0 serialize_init \<and>
    result (serialize_step mapping i st) = result st @ separators mapping i st @ encoded_entry mapping st"
proof -
  have out: "serialize_mappings sm = loop_output (mappings sm) 0 serialize_init"
    by (simp add: serialize_mappings_def serialize_init_def result_serialize_loop)
  have "sorted (previous_generated_line serialize_init #
      map (\<lambda>m. line (generated_position m)) (mappings sm))"
    using assms(1) by (simp add: serialize_init_def)
  then have "decode_mappings_from (uint (previous_generated_line serialize_init))
           (uint (previous_generated_column serialize_init),
            uint (previous_original_file serialize_init),
            uint (previous_original_line serialize_init),
            uint (previous_original_column serialize_init))
           (loop_output (mappings sm) 0 serialize_init) = Some (map triple_of (mappings sm))"
    using assms(2) by (intro decode_loop_output) (simp_all add: serialize_init_def fits_int_def)
  then have "decode_mappings (serialize_mappings sm) = Some (map triple_of (mappings sm))"
    by (simp add: out decode_mappings_def serialize_init_def)
  moreover have "result (serialize_step mapping i st) =
      result st @ separators mapping i st @ encoded_entry mapping st"
    by (subst serialize_step_eq) simp
  ultimately show ?thesis
    using out by blast
qed

text \<open>
  Two mappings on generated line 0 and one on line 2, from one source file.
\<close>

theorem serialize_mappings_roundtrip_witness:
  "serialize_mappings
     \<lparr>source_index = [0],
      mappings =
        [\<lparr>original_position = \<lparr>line = 0, column = 0, file = 0\<rparr>,
          generated_position = \<lparr>line = 0, column = 0, file = 0\<rparr>\<rparr>,
         \<lparr>original_position = \<lparr>line = 0, column = 9, file = 0\<rparr>,
          generated_position = \<lparr>line = 0, column = 8, file = 0\<rparr>\<rparr>,
         \<lparr>original_position = \<lparr>line = 3, column = 0, file = 0\<rparr>,
          generated_position = \<lparr>line = 2, column = 0, file = 0\<rparr>\<rparr>],
      current_position = \<lparr>line = 2, column = 5, file = 0\<rparr>, SourceMap_file = ''stdin''\<rparr>
     = ''AAAA,QAAS;;AAGT'' \<and>
   decode_mappings ''AAAA,QAAS;;AAGT'' =
     Some [((0, 0), 0, (0, 0)), ((0, 8), 0, (0, 9)), ((2, 0), 0, (3, 0))]"
proof -
  let ?sm = "\<lparr>source_index = [0],
      mappings =
        [\<lparr>original_position = \<lparr>line = 0, column = 0, file = 0\<rparr>,
          generated_position = \<lparr>line = 0, column = 0, file = 0\<rparr>\<rparr>,
         \<lparr>original_position = \<lparr>line = 0, column = 9, file = 0\<rparr>,
          generated_position = \<lparr>line = 0, column = 8, file = 0\<rparr>\<rparr>,
         \<lparr>original_position = \<lparr>line = 3, column = 0, file = 0\<rparr>,
          generated_position = \<lparr>line = 2, column = 0, file = 0\<rparr>\<rparr>],
      current_position = \<lparr>line = 2, column = 5, file = 0\<rparr>, SourceMap_file = ''stdin''\<rparr>"
  have s: "sorted (map (\<lambda>m. line (generated_position m)) (mappings ?sm))"
    by simp
  have f: "list_all mapping_fits_int (mappings ?sm)"
    by (simp add: mapping_fits_int_def fits_int_def)
  have v: "serialize_mappings ?sm = ''AAAA,QAAS;;AAGT''"
    by code_simp
  have t: "map triple_of (mappings ?sm) =
      [((0, 0), 0, (0, 0)), ((0, 8), 0, (0, 9)), ((2, 0), 0, (3, 0))]"
    by (simp add: triple_of_def)
  from serialize_mappings_roundtrip [OF s f] have
    "decode_mappings (serialize_mappings ?sm) = Some (map triple_of (mappings ?sm))"
    by blast
  with v t show ?thesis
    by (simp only:)
qed

text \<open>
  C1 as stated fails for two kinds of sequences. A mapping with the original line
  \<open>2 ^ 32\<close> is serialised like one with the original line 0, since \<open>static_cast<int>\<close>
  keeps the low 32 bits, and is decoded as such. And for a mapping on generated line 1
  followed by one on line 0, the loop appends the second entry to the first without a
  separator, and the string is not a sequence of entries of four deltas.
\<close>

theorem serialize_mappings_not_decodable:
  "serialize_mappings
     \<lparr>source_index = [0],
      mappings =
        [\<lparr>original_position = \<lparr>line = 4294967296, column = 0, file = 0\<rparr>,
          generated_position = \<lparr>line = 0, column = 0, file = 0\<rparr>\<rparr>],
      current_position = \<lparr>line = 0, column = 0, file = 0\<rparr>, SourceMap_file = ''stdin''\<rparr>
     = ''AAAA'' \<and>
   decode_mappings ''AAAA'' = Some [((0, 0), 0, (0, 0))] \<and>
   triple_of \<lparr>original_position = \<lparr>line = 4294967296, column = 0, file = 0\<rparr>,
          generated_position = \<lparr>line = 0, column = 0, file = 0\<rparr>\<rparr>
     = ((0, 0), 0, (4294967296, 0)) \<and>
   serialize_mappings
     \<lparr>source_index = [0],
      mappings =
        [\<lparr>original_position = \<lparr>line = 0, column = 0, file = 0\<rparr>,
          generated_position = \<lparr>line = 1, column = 0, file = 0\<rparr>\<rparr>,
         \<lparr>original_position = \<lparr>line = 0, column = 0, file = 0\<rparr>,
          generated_position = \<lparr>line = 0, column = 0, file = 0\<rparr>\<rparr>],
      current_position = \<lparr>line = 1, column = 0, file = 0\<rparr>, SourceMap_file = ''stdin''\<rparr>
     = '';AAAAAAAA'' \<and>
   decode_mappings '';AAAAAAAA'' = None"
proof -
  have 1: "serialize_mappings
     \<lparr>source_index = [0],
      mappings =
        [\<lparr>original_position = \<lparr>line = 4294967296, column = 0, file = 0\<rparr>,
          generated_position = \<lparr>line = 0, column = 0, file = 0\<rparr>\<rparr>],
      current_position = \<lparr>line = 0, column = 0, file = 0\<rparr>, SourceMap_file = ''stdin''\<rparr>
     = ''AAAA''"
    by code_simp
  have 2: "decode_mappings ''AAAA'' = Some [((0, 0), 0, (0, 0))]"
    by code_simp
  have 3: "triple_of \<lparr>original_position = \<lparr>line = 4294967296, column = 0, file = 0\<rparr>,
          generated_position = \<lparr>line = 0, column = 0, file = 0\<rparr>\<rparr>
     = ((0, 0), 0, (4294967296, 0))"
    by (simp add: triple_of_def)
  have 4: "serialize_mappings
     \<lparr>source_index = [0],
      mappings =
        [\<lparr>original_position = \<lparr>line = 0, column = 0, file = 0\<rparr>,
          generated_position = \<lparr>line = 1, column = 0, file = 0\<rparr>\<rparr>,
         \<lparr>original_position = \<lparr>line = 0, column = 0, file = 0\<rparr>,
          generated_position = \<lparr>line = 0, column = 0, file = 0\<rparr>\<rparr>],
      current_position = \<lparr>line = 1, column = 0, file = 0\<rparr>, SourceMap_file = ''stdin''\<rparr>
     = '';AAAAAAAA''"
    by code_simp
  have 5: "decode_mappings '';AAAAAAAA'' = None"
    by code_simp
  from 1 2 3 4 5 show ?thesis
    by (simp only: simp_thms)
qed


end
